theory Spec2Isabelle
  imports Complex_Main "HOL-Library.AList" "HOL-Library.Word"
begin

section \<open>The milk pouch notebook: detection boxes, region filter, crops, classification\<close>

text \<open>
  The notebook \<^verbatim>\<open>grounding-sam2.ipynb\<close> chains a detector, a segmenter and a chat
  classifier. Its own logic is four pieces of glue: the conversion of the detector's
  boxes to pixel corners, the size filter, the masked crop written to \<^verbatim>\<open>tempdir\<close>,
  and the loop over the crops that prompts the classifier. Each piece is embedded below
  as the cell that holds it is written.

  Numbers. The detector's boxes are float32 tensors. A float32 value is the rational
  number it stands for (\<^typ>\<open>rat\<close>), and every float32 operation of cell 19 is the exact
  operation followed by the rounding to the nearest float32 value, ties to even.
  Overflow to infinity and NaN are not modelled; the values of the properties below
  are far from them. The integer corners are numpy int64 values (\<^verbatim>\<open>astype(int)\<close>); they
  are \<^typ>\<open>int\<close>, and the int64 arithmetic of the filter is written with its
  wrap-around. What \<^verbatim>\<open>astype(int)\<close> gives for a float outside the int64 range is not
  modelled. The threshold \<^verbatim>\<open>0.25 * ...\<close> is a Python float (binary64): a product of
  image dimensions below \<open>2\<^sup>5\<^sup>3\<close> and the quarter of it are exact there, as is an area
  below \<open>2\<^sup>5\<^sup>3\<close> in the comparison, and the model compares the exact rationals.
\<close>

subsection \<open>float32\<close>

text \<open>
  A finite float32 value is \<open>n * 2\<^sup>e\<^sup>-\<^sup>2\<^sup>3\<close> for integers \<open>\<bar>n\<bar> < 2\<^sup>2\<^sup>4\<close> and
  \<open>-126 \<le> e \<le> 127\<close>. The exponent of a rational \<open>x\<close> is the greatest \<open>e\<close> of that range
  with \<open>2\<^sup>e \<le> \<bar>x\<bar>\<close>, and \<open>-126\<close> when there is none (the subnormal range). A float32
  operation returns the multiple of \<open>2\<^sup>e\<^sup>-\<^sup>2\<^sup>3\<close> nearest to its exact result; of two
  nearest multiples it returns the even one.
\<close>

definition round_half_even :: "rat \<Rightarrow> int" where
  "round_half_even y =
     (let f = \<lfloor>y\<rfloor>; d = y - of_int f
      in if d < 1 / 2 then f else if 1 / 2 < d then f + 1 else if even f then f else f + 1)"

fun binade_search :: "nat \<Rightarrow> int \<Rightarrow> rat \<Rightarrow> int" where
  "binade_search 0 e x = e"
| "binade_search (Suc n) e x = (if 2 powi e \<le> x then e else binade_search n (e - 1) x)"

definition binade :: "rat \<Rightarrow> int" where
  "binade x = binade_search 253 127 \<bar>x\<bar>"

definition fl32 :: "rat \<Rightarrow> rat" where
  "fl32 x = (let q = 2 powi (binade x - 23) in of_int (round_half_even (x / q)) * q)"

subsection \<open>Cell 19: the conversion of the boxes\<close>

text \<open>
  \<^verbatim>\<open>
  h, w, _ = image_source.shape
  boxes = boxes * torch.Tensor([w, h, w, h])
  xyxy = box_convert(boxes=boxes, in_fmt="cxcywh", out_fmt="xyxy").numpy().astype(int)
  \<close>
\<close>

type_synonym cxcywh = "rat \<times> rat \<times> rat \<times> rat"
type_synonym pixel_box = "int \<times> int \<times> int \<times> int"

text \<open>The product of a row \<open>(cx, cy, w, h)\<close> with the tensor \<open>[w, h, w, h]\<close>,
  component by component. \<^verbatim>\<open>torch.Tensor([w, h, w, h])\<close> holds the float32 values of the
  four integers, and each product is a float32 product.\<close>

definition mul_whwh :: "nat \<Rightarrow> nat \<Rightarrow> cxcywh \<Rightarrow> cxcywh" where
  "mul_whwh w h b =
     (case b of (cx, cy, bw, bh) \<Rightarrow>
        (fl32 (cx * fl32 (of_nat w)), fl32 (cy * fl32 (of_nat h)),
         fl32 (bw * fl32 (of_nat w)), fl32 (bh * fl32 (of_nat h))))"

text \<open>torchvision's \<^verbatim>\<open>box_convert\<close> from \<^verbatim>\<open>cxcywh\<close> to \<^verbatim>\<open>xyxy\<close>: the corners are
  \<^verbatim>\<open>cx - 0.5 * w\<close>, \<^verbatim>\<open>cy - 0.5 * h\<close>, \<^verbatim>\<open>cx + 0.5 * w\<close>, \<^verbatim>\<open>cy + 0.5 * h\<close>, each a float32
  product followed by a float32 difference or sum.\<close>

definition box_convert :: "cxcywh \<Rightarrow> cxcywh" where
  "box_convert b =
     (case b of (cx, cy, bw, bh) \<Rightarrow>
        (fl32 (cx - fl32 ((1 / 2) * bw)), fl32 (cy - fl32 ((1 / 2) * bh)),
         fl32 (cx + fl32 ((1 / 2) * bw)), fl32 (cy + fl32 ((1 / 2) * bh))))"

text \<open>\<^verbatim>\<open>astype(int)\<close> on a float drops the fraction: it rounds toward zero.\<close>

definition astype_int :: "rat \<Rightarrow> int" where
  "astype_int q = (if 0 \<le> q then \<lfloor>q\<rfloor> else \<lceil>q\<rceil>)"

definition astype_int_box :: "cxcywh \<Rightarrow> pixel_box" where
  "astype_int_box b =
     (case b of (a, b, c, d) \<Rightarrow> (astype_int a, astype_int b, astype_int c, astype_int d))"

definition xyxy_of :: "nat \<Rightarrow> nat \<Rightarrow> cxcywh list \<Rightarrow> pixel_box list" where
  "xyxy_of w h boxes = map (\<lambda>b. astype_int_box (box_convert (mul_whwh w h b))) boxes"

text \<open>The Pixel Box of the specification's section 8, in the specification's words:
  \<open>x1 = (cx - w/2) * W\<close>, \<open>y1 = (cy - h/2) * H\<close>, \<open>x2 = (cx + w/2) * W\<close>,
  \<open>y2 = (cy + h/2) * H\<close>, each truncated toward zero.\<close>

definition spec_pixel_box :: "nat \<Rightarrow> nat \<Rightarrow> cxcywh \<Rightarrow> pixel_box" where
  "spec_pixel_box W H b =
     (case b of (cx, cy, bw, bh) \<Rightarrow>
        (astype_int ((cx - bw / 2) * of_nat W), astype_int ((cy - bh / 2) * of_nat H),
         astype_int ((cx + bw / 2) * of_nat W), astype_int ((cy + bh / 2) * of_nat H)))"

definition corners_ordered :: "pixel_box \<Rightarrow> bool" where
  "corners_ordered b = (case b of (x1, y1, x2, y2) \<Rightarrow> x1 \<le> x2 \<and> y1 \<le> y2)"

definition size_nonneg :: "cxcywh \<Rightarrow> bool" where
  "size_nonneg b = (case b of (cx, cy, bw, bh) \<Rightarrow> 0 \<le> bw \<and> 0 \<le> bh)"

text \<open>A normalized box: the four components in \<open>[0, 1]\<close>. And two Pixel Boxes that
  differ by at most one pixel in each corner.\<close>

definition unit_box :: "cxcywh \<Rightarrow> bool" where
  "unit_box b =
     (case b of (cx, cy, bw, bh) \<Rightarrow>
        0 \<le> cx \<and> cx \<le> 1 \<and> 0 \<le> cy \<and> cy \<le> 1 \<and> 0 \<le> bw \<and> bw \<le> 1 \<and> 0 \<le> bh \<and> bh \<le> 1)"

definition within_one_pixel :: "pixel_box \<Rightarrow> pixel_box \<Rightarrow> bool" where
  "within_one_pixel b c =
     (case b of (x1, y1, x2, y2) \<Rightarrow>
        (case c of (u1, v1, u2, v2) \<Rightarrow>
           \<bar>x1 - u1\<bar> \<le> 1 \<and> \<bar>y1 - v1\<bar> \<le> 1 \<and> \<bar>x2 - u2\<bar> \<le> 1 \<and> \<bar>y2 - v2\<bar> \<le> 1))"

subsection \<open>Cell 20: the region filter\<close>

text \<open>
  \<^verbatim>\<open>
  x1, y1, x2, y2 = bbox
  if (x2-x1)*(y2-y1) < 0.25 * math.prod(image.size):
  \<close>
  The corners are numpy int64 scalars: a difference or a product outside the int64
  range wraps around. \<^verbatim>\<open>math.prod\<close> multiplies the entries of a sequence. The test
  below is the comparison for a sequence \<^verbatim>\<open>image.size\<close> (\<open>[width, height]\<close> for an object
  that gives its size so); what \<^verbatim>\<open>image\<close> is in the notebook, and what the guard does
  with it, follows with the loop.
\<close>

definition wrap64 :: "int \<Rightarrow> int" where
  "wrap64 n = (n + 2 ^ 63) mod 2 ^ 64 - 2 ^ 63"

definition box_area :: "pixel_box \<Rightarrow> int" where
  "box_area b =
     (case b of (x1, y1, x2, y2) \<Rightarrow> wrap64 (wrap64 (x2 - x1) * wrap64 (y2 - y1)))"

definition math_prod :: "int list \<Rightarrow> int" where
  "math_prod xs = foldl (*) 1 xs"

definition region_filter :: "int list \<Rightarrow> pixel_box \<Rightarrow> bool" where
  "region_filter image_size b \<longleftrightarrow>
     (of_int (box_area b) :: rat) < (1 / 4) * of_int (math_prod image_size)"

text \<open>Corners below \<open>2\<^sup>3\<^sup>0\<close> in absolute value: the differences and their product
  stay inside the int64 range. Every box of an image with fewer than \<open>2\<^sup>2\<^sup>9\<close> pixels
  on a side is of this kind.\<close>

definition coords_bounded :: "pixel_box \<Rightarrow> bool" where
  "coords_bounded b =
     (case b of (x1, y1, x2, y2) \<Rightarrow>
        \<bar>x1\<bar> < 2 ^ 30 \<and> \<bar>y1\<bar> < 2 ^ 30 \<and> \<bar>x2\<bar> < 2 ^ 30 \<and> \<bar>y2\<bar> < 2 ^ 30)"

subsection \<open>Cell 20: the masked crop\<close>

text \<open>
  \<^verbatim>\<open>
  masked_object = Image.fromarray(
      np.where(
          np.expand_dims(masks[0]*255, -1),
          image_source, 0
      )[y1:y2, x1:x2]
  )
  \<close>
  \<^verbatim>\<open>image_source\<close> is a uint8 array of shape height, width, channels: a list of rows, a
  row a list of pixels, a pixel the list of its channels. A mask is an array of shape
  height, width.
\<close>

type_synonym byte = "8 word"
type_synonym pixel = "byte list"
type_synonym image = "pixel list list"
type_synonym mask = "int list list"

datatype error =
    ValueError
  | IndexError
  | TypeError
  | FileExistsError
  | FileNotFoundError
  | Cv2Error
  | AdapterError string

definition shape_h :: "'a list list \<Rightarrow> nat" where
  "shape_h a = length a"

definition shape_w :: "'a list list \<Rightarrow> nat" where
  "shape_w a = (case a of [] \<Rightarrow> 0 | r # _ \<Rightarrow> length r)"

text \<open>An array of \<open>H\<close> rows of \<open>W\<close> entries each.\<close>

definition has_shape :: "nat \<Rightarrow> nat \<Rightarrow> 'a list list \<Rightarrow> bool" where
  "has_shape H W a \<longleftrightarrow> map length a = replicate H W"

definition times255 :: "mask \<Rightarrow> mask" where
  "times255 m = map (map (\<lambda>c. c * 255)) m"

text \<open>\<^verbatim>\<open>np.where(cond, image_source, 0)\<close> with \<open>cond\<close> of shape height, width, 1: where
  the condition is nonzero the pixel of the image, elsewhere 0 in every channel. The
  segmenter returns its mask at the resolution of the image it was bound to; for a
  condition whose row lengths differ from the image's the model gives the error numpy
  raises for shapes it cannot broadcast (numpy's broadcasting of an extent 1 is not
  modelled).\<close>

definition np_where :: "mask \<Rightarrow> image \<Rightarrow> error + image" where
  "np_where cond a =
     (if map length cond = map length a
      then Inr (map2 (\<lambda>cr ar. map2 (\<lambda>c px. if c \<noteq> 0 then px else map (\<lambda>_. 0) px) cr ar) cond a)
      else Inl ValueError)"

text \<open>A slice bound of Python and numpy, for a sequence of length \<open>n\<close> and step 1: a
  negative bound counts from the end, and every bound is then clipped to \<open>0..n\<close>.\<close>

definition slice_bound :: "nat \<Rightarrow> int \<Rightarrow> nat" where
  "slice_bound n i = (if i < 0 then nat (int n + i) else min n (nat i))"

definition py_slice :: "int \<Rightarrow> int \<Rightarrow> 'a list \<Rightarrow> 'a list" where
  "py_slice start stop xs =
     (let lo = slice_bound (length xs) start; hi = slice_bound (length xs) stop
      in take (hi - lo) (drop lo xs))"

text \<open>The index \<^verbatim>\<open>[y1:y2, x1:x2]\<close>: rows \<open>y1\<close> to \<open>y2\<close>, of each the columns \<open>x1\<close> to
  \<open>x2\<close>.\<close>

definition crop :: "pixel_box \<Rightarrow> image \<Rightarrow> image" where
  "crop b a = (case b of (x1, y1, x2, y2) \<Rightarrow> map (py_slice x1 x2) (py_slice y1 y2 a))"

definition masked_object :: "mask \<Rightarrow> image \<Rightarrow> pixel_box \<Rightarrow> error + image" where
  "masked_object m image_source b =
     (case np_where (times255 m) image_source of
        Inl e \<Rightarrow> Inl e
      | Inr a \<Rightarrow> Inr (crop b a))"

definition crop_empty :: "image \<Rightarrow> bool" where
  "crop_empty c = list_all (\<lambda>r. r = []) c"

subsection \<open>The files\<close>

text \<open>
  The notebook's state is the file system: the directories that exist and the files
  with their bytes, under the relative paths the notebook uses. A file written twice
  keeps its place in the listing and takes the new bytes.
\<close>

record filesystem =
  dirs :: "string list"
  files :: "(string \<times> byte list) list"

text \<open>\<^verbatim>\<open>os.makedirs(d, exist_ok=True)\<close> for a single component: nothing to do when the
  directory exists, an error when a file has the name.\<close>

definition makedirs_exist_ok :: "string \<Rightarrow> filesystem \<Rightarrow> error + filesystem" where
  "makedirs_exist_ok d fs =
     (if d \<in> set (dirs fs) then Inr fs
      else if map_of (files fs) d \<noteq> None then Inl FileExistsError
      else Inr (fs\<lparr>dirs := dirs fs @ [d]\<rparr>))"

text \<open>\<^verbatim>\<open>str.rfind\<close> for one character: the last index of it, or -1.\<close>

definition rfind :: "char \<Rightarrow> string \<Rightarrow> int" where
  "rfind c s =
     (if c \<in> set s
      then int (length s) - 1 - int (length (takeWhile (\<lambda>x. x \<noteq> c) (rev s)))
      else - 1)"

text \<open>The directory part of a path: what stands before its last \<open>/\<close>, the empty
  string (the working directory) when it has none.\<close>

definition dirname :: "string \<Rightarrow> string" where
  "dirname p = take (nat (rfind CHR ''/'' p)) p"

text \<open>Opening a file for writing creates or truncates it; the directory must exist.\<close>

definition write_file :: "string \<Rightarrow> byte list \<Rightarrow> filesystem \<Rightarrow> error + filesystem" where
  "write_file p data fs =
     (if dirname p = [] \<or> dirname p \<in> set (dirs fs)
      then Inr (fs\<lparr>files := AList.update p data (files fs)\<rparr>)
      else Inl FileNotFoundError)"

text \<open>\<^verbatim>\<open>os.path.splitext\<close> (posixpath): the extension starts at the last dot of the last
  component, unless only dots stand before it in that component.\<close>

definition splitext :: "string \<Rightarrow> string \<times> string" where
  "splitext p =
     (let sepIndex = rfind CHR ''/'' p; dotIndex = rfind CHR ''.'' p
      in if dotIndex > sepIndex \<and>
            list_ex (\<lambda>c. c \<noteq> CHR ''.'')
              (take (nat (dotIndex - (sepIndex + 1))) (drop (nat (sepIndex + 1)) p))
         then (take (nat dotIndex) p, drop (nat dotIndex) p)
         else (p, []))"

text \<open>The decimal digits of an index, as the f-string prints it.\<close>

definition digit_char :: "nat \<Rightarrow> char" where
  "digit_char d = ''0123456789'' ! d"

fun str_nat :: "nat \<Rightarrow> string" where
  "str_nat n = (if n < 10 then [digit_char n] else str_nat (n div 10) @ [digit_char (n mod 10)])"

declare str_nat.simps [simp del]

text \<open>\<^verbatim>\<open>IMAGE_PATH = "IMG_6509.png"\<close> in cell 16, and
  \<^verbatim>\<open>image_path = f'tempdir/{os.path.splitext(IMAGE_PATH)[0]}_{idx}.png'\<close> in cell 20.\<close>

definition IMAGE_PATH :: string where
  "IMAGE_PATH = ''IMG_6509.png''"

definition crop_path :: "string \<Rightarrow> nat \<Rightarrow> string" where
  "crop_path image_path idx =
     ''tempdir/'' @ fst (splitext image_path) @ ''_'' @ str_nat idx @ ''.png''"

subsection \<open>Cell 20: the loop over the detections\<close>

text \<open>
  The three models are reached through their libraries. Each call is a parameter of
  the model, and each can fail: the segmenter bound to the source image (from a box to
  its masks), the encoder behind \<^verbatim>\<open>Image.fromarray(...).save\<close> (from the array to
  the bytes of the PNG file) and the chat call (from a path and the bytes of its file
  to the text of the answer). A failure ends the run, as the exception does.
\<close>

record adapters =
  sam2_predict :: "pixel_box \<Rightarrow> error + mask list"
  png_save :: "image \<Rightarrow> error + byte list"
  ollama_chat :: "string \<Rightarrow> byte list \<Rightarrow> error + string"

text \<open>The compositor: the masked crop of one box, encoded and saved under a path.\<close>

definition crop_compositor ::
  "(image \<Rightarrow> error + byte list) \<Rightarrow> mask \<Rightarrow> image \<Rightarrow> pixel_box \<Rightarrow> string \<Rightarrow>
   filesystem \<Rightarrow> error + filesystem" where
  "crop_compositor save m image_source b path fs =
     (case masked_object m image_source b of
        Inl e \<Rightarrow> Inl e
      | Inr obj \<Rightarrow>
          (case save obj of
             Inl e \<Rightarrow> Inl e
           | Inr data \<Rightarrow> write_file path data fs))"

definition loop_body ::
  "adapters \<Rightarrow> string \<Rightarrow> image \<Rightarrow> int list \<Rightarrow> nat \<times> pixel_box \<Rightarrow> filesystem \<Rightarrow>
   error + filesystem" where
  "loop_body A image_path image_source image_size ib fs =
     (case ib of (idx, bbox) \<Rightarrow>
        if region_filter image_size bbox then
          (case sam2_predict A bbox of
             Inl e \<Rightarrow> Inl e
           | Inr masks \<Rightarrow>
               (case masks of
                  [] \<Rightarrow> Inl IndexError
                | m # _ \<Rightarrow>
                    crop_compositor (png_save A) m image_source bbox
                      (crop_path image_path idx) fs))
        else Inr fs)"

text \<open>Two names for what the loop does with its boxes. The bytes of the crop of one
  box: the first mask of the segmenter, the masked crop, the encoder. And the paths of
  the boxes that pass the filter, in the order of the loop.\<close>

definition artifact :: "adapters \<Rightarrow> image \<Rightarrow> pixel_box \<Rightarrow> error + byte list" where
  "artifact A image_source bbox =
     (case sam2_predict A bbox of
        Inl e \<Rightarrow> Inl e
      | Inr masks \<Rightarrow>
          (case masks of
             [] \<Rightarrow> Inl IndexError
           | m # _ \<Rightarrow>
               (case masked_object m image_source bbox of
                  Inl e \<Rightarrow> Inl e
                | Inr obj \<Rightarrow> png_save A obj)))"


fun detection_loop ::
  "adapters \<Rightarrow> string \<Rightarrow> image \<Rightarrow> int list \<Rightarrow> (nat \<times> pixel_box) list \<Rightarrow> filesystem \<Rightarrow>
   error + filesystem" where
  "detection_loop A image_path image_source image_size [] fs = Inr fs"
| "detection_loop A image_path image_source image_size (ib # rest) fs =
     (case loop_body A image_path image_source image_size ib fs of
        Inl e \<Rightarrow> Inl e
      | Inr fs' \<Rightarrow> detection_loop A image_path image_source image_size rest fs')"

definition cell19 :: "image \<Rightarrow> cxcywh list \<Rightarrow> filesystem \<Rightarrow> error + filesystem \<times> pixel_box list" where
  "cell19 image_source boxes fs =
     (case makedirs_exist_ok ''tempdir'' fs of
        Inl e \<Rightarrow> Inl e
      | Inr fs' \<Rightarrow> Inr (fs', xyxy_of (shape_w image_source) (shape_h image_source) boxes))"

definition cell20 ::
  "adapters \<Rightarrow> string \<Rightarrow> image \<Rightarrow> int list \<Rightarrow> pixel_box list \<Rightarrow> filesystem \<Rightarrow>
   error + filesystem" where
  "cell20 A image_path image_source image_size xyxy fs =
     detection_loop A image_path image_source image_size (List.enumerate 0 xyxy) fs"

subsection \<open>Cell 20: the object behind \<^verbatim>\<open>image.size\<close>\<close>

text \<open>
  \<^verbatim>\<open>
  image_source, image = load_image(IMAGE_PATH)
  ...
  if (x2-x1)*(y2-y1) < 0.25 * math.prod(image.size):
  \<close>
  The loop body above takes the sequence \<^verbatim>\<open>image.size\<close> as it is given. In the notebook
  \<^verbatim>\<open>image\<close> is bound in cell 16 to the second value of the detector library's
  \<^verbatim>\<open>load_image\<close>: the transformed image, a \<^verbatim>\<open>torch.Tensor\<close> (the first value,
  \<^verbatim>\<open>image_source\<close>, is the array of the pixels). The attribute \<^verbatim>\<open>size\<close> of a tensor is a
  bound method, not a sequence, and \<^verbatim>\<open>math.prod\<close> raises \<^verbatim>\<open>TypeError\<close> for an argument
  that is not iterable. The attribute \<^verbatim>\<open>size\<close> of a PIL image is the pair of its width
  and height. The guard and the loop follow once more, from the object that \<^verbatim>\<open>image\<close>
  is bound to; the left side of the comparison is evaluated first and cannot fail.
\<close>

datatype py_image = Torch_Tensor | PIL_Image nat nat

datatype py_size = Int_Tuple "int list" | Bound_Method

definition size_attr :: "py_image \<Rightarrow> py_size" where
  "size_attr image_object =
     (case image_object of
        Torch_Tensor \<Rightarrow> Bound_Method
      | PIL_Image w h \<Rightarrow> Int_Tuple [int w, int h])"

definition math_prod_py :: "py_size \<Rightarrow> error + int" where
  "math_prod_py v =
     (case v of
        Int_Tuple xs \<Rightarrow> Inr (math_prod xs)
      | Bound_Method \<Rightarrow> Inl TypeError)"

definition guard :: "py_image \<Rightarrow> pixel_box \<Rightarrow> error + bool" where
  "guard image_object bbox =
     (case math_prod_py (size_attr image_object) of
        Inl e \<Rightarrow> Inl e
      | Inr n \<Rightarrow> Inr ((of_int (box_area bbox) :: rat) < (1 / 4) * of_int n))"

definition notebook_loop_body ::
  "adapters \<Rightarrow> string \<Rightarrow> image \<Rightarrow> py_image \<Rightarrow> nat \<times> pixel_box \<Rightarrow> filesystem \<Rightarrow>
   error + filesystem" where
  "notebook_loop_body A image_path image_source image_object ib fs =
     (case ib of (idx, bbox) \<Rightarrow>
        (case guard image_object bbox of
           Inl e \<Rightarrow> Inl e
         | Inr pass \<Rightarrow>
             if pass then
               (case sam2_predict A bbox of
                  Inl e \<Rightarrow> Inl e
                | Inr masks \<Rightarrow>
                    (case masks of
                       [] \<Rightarrow> Inl IndexError
                     | m # _ \<Rightarrow>
                         crop_compositor (png_save A) m image_source bbox
                           (crop_path image_path idx) fs))
             else Inr fs))"

fun notebook_detection_loop ::
  "adapters \<Rightarrow> string \<Rightarrow> image \<Rightarrow> py_image \<Rightarrow> (nat \<times> pixel_box) list \<Rightarrow> filesystem \<Rightarrow>
   error + filesystem" where
  "notebook_detection_loop A image_path image_source image_object [] fs = Inr fs"
| "notebook_detection_loop A image_path image_source image_object (ib # rest) fs =
     (case notebook_loop_body A image_path image_source image_object ib fs of
        Inl e \<Rightarrow> Inl e
      | Inr fs' \<Rightarrow> notebook_detection_loop A image_path image_source image_object rest fs')"

definition notebook_cell20 ::
  "adapters \<Rightarrow> string \<Rightarrow> image \<Rightarrow> py_image \<Rightarrow> pixel_box list \<Rightarrow> filesystem \<Rightarrow>
   error + filesystem" where
  "notebook_cell20 A image_path image_source image_object xyxy fs =
     notebook_detection_loop A image_path image_source image_object (List.enumerate 0 xyxy) fs"

subsection \<open>Cell 26: the classification of the crops\<close>

text \<open>
  \<^verbatim>\<open>
  images = glob.glob('tempdir/*.png')
  for path in images:
    response: ChatResponse = chat(model='gemma3:12b-it-qat', messages=[...'images': [path]...])
    image = cv2.imread(path)
    image = cv2.cvtColor(image, cv2.COLOR_BGR2RGB)
    plt.imshow(image)
    plt.axis('off')
    plt.show()
    print(f"\n{response.message.content}")
  \<close>
  The pattern matches the entries of \<^verbatim>\<open>tempdir\<close> whose name ends in \<^verbatim>\<open>.png\<close> and does
  not start with a dot. The entries of the model are the files (a directory of such a
  name inside \<^verbatim>\<open>tempdir\<close> is not modelled). The order of the listing is the operating
  system's; the model lists the files in the order of its own table, and no property
  below depends on it.

  For each path the chat call comes first. Then the crop is read back and shown:
  \<^verbatim>\<open>cv2.imread\<close> returns the decoded image, or \<^verbatim>\<open>None\<close>, without raising, for a file
  that it cannot read or decode; \<^verbatim>\<open>cv2.cvtColor\<close> raises \<^verbatim>\<open>cv2.error\<close> for \<^verbatim>\<open>None\<close> and
  otherwise reverses the three channels of each pixel. The decoder of the library is a
  parameter of the model. The display itself (\<^verbatim>\<open>plt\<close>) has no effect on the state of
  the model. The answer is printed last, so an answer is printed for a path only when
  its file has been decoded; a classification result is the path of the crop with the
  text of the answer.
\<close>

definition in_tempdir_png :: "string \<Rightarrow> bool" where
  "in_tempdir_png p =
     (take 8 p = ''tempdir/'' \<and>
      (let name = drop 8 p
       in CHR ''/'' \<notin> set name \<and> take 1 name \<noteq> ''.'' \<and> 4 \<le> length name \<and>
          drop (length name - 4) name = ''.png''))"

definition glob_tempdir_png :: "filesystem \<Rightarrow> string list" where
  "glob_tempdir_png fs = filter in_tempdir_png (map fst (files fs))"

type_synonym decoder = "byte list \<Rightarrow> image option"

definition cv2_imread :: "decoder \<Rightarrow> filesystem \<Rightarrow> string \<Rightarrow> image option" where
  "cv2_imread decode fs path =
     (case map_of (files fs) path of
        None \<Rightarrow> None
      | Some data \<Rightarrow> decode data)"

definition cv2_cvtColor :: "image option \<Rightarrow> error + image" where
  "cv2_cvtColor img =
     (case img of
        None \<Rightarrow> Inl Cv2Error
      | Some a \<Rightarrow> Inr (map (map rev) a))"

text \<open>A path whose file \<^verbatim>\<open>cv2.imread\<close> decodes.\<close>

definition decodable :: "decoder \<Rightarrow> filesystem \<Rightarrow> string \<Rightarrow> bool" where
  "decodable decode fs path = (cv2_imread decode fs path \<noteq> None)"

fun classify_loop ::
  "adapters \<Rightarrow> decoder \<Rightarrow> filesystem \<Rightarrow> string list \<Rightarrow> error + (string \<times> string) list" where
  "classify_loop A decode fs [] = Inr []"
| "classify_loop A decode fs (path # rest) =
     (case map_of (files fs) path of
        None \<Rightarrow> Inl FileNotFoundError
      | Some data \<Rightarrow>
          (case ollama_chat A path data of
             Inl e \<Rightarrow> Inl e
           | Inr response \<Rightarrow>
               (case cv2_cvtColor (cv2_imread decode fs path) of
                  Inl e \<Rightarrow> Inl e
                | Inr shown \<Rightarrow>
                    (case classify_loop A decode fs rest of
                       Inl e \<Rightarrow> Inl e
                     | Inr results \<Rightarrow> Inr ((path, response) # results)))))"

definition cell26 ::
  "adapters \<Rightarrow> decoder \<Rightarrow> filesystem \<Rightarrow> error + (string \<times> string) list" where
  "cell26 A decode fs = classify_loop A decode fs (glob_tempdir_png fs)"

subsection \<open>The cells in sequence\<close>

text \<open>The cells 19, 20 and 26, one after the other, for the array \<^verbatim>\<open>image_source\<close>, the
  object \<^verbatim>\<open>image\<close> and the boxes of the detector. In the notebook cell 16 binds
  \<^verbatim>\<open>image\<close> to the tensor that \<^verbatim>\<open>load_image\<close> returns beside \<^verbatim>\<open>image_source\<close>.\<close>

definition run_cells ::
  "adapters \<Rightarrow> decoder \<Rightarrow> string \<Rightarrow> image \<Rightarrow> py_image \<Rightarrow> cxcywh list \<Rightarrow> filesystem \<Rightarrow>
   error + filesystem \<times> (string \<times> string) list" where
  "run_cells A decode image_path image_source image_object boxes fs =
     (case cell19 image_source boxes fs of
        Inl e \<Rightarrow> Inl e
      | Inr (fs1, xyxy) \<Rightarrow>
          (case notebook_cell20 A image_path image_source image_object xyxy fs1 of
             Inl e \<Rightarrow> Inl e
           | Inr fs2 \<Rightarrow>
               (case cell26 A decode fs2 of
                  Inl e \<Rightarrow> Inl e
                | Inr results \<Rightarrow> Inr (fs2, results))))"

definition run_notebook ::
  "adapters \<Rightarrow> decoder \<Rightarrow> string \<Rightarrow> image \<Rightarrow> cxcywh list \<Rightarrow> filesystem \<Rightarrow>
   error + filesystem \<times> (string \<times> string) list" where
  "run_notebook A decode image_path image_source boxes fs =
     run_cells A decode image_path image_source Torch_Tensor boxes fs"


section \<open>Properties\<close>

subsection \<open>The rounding to float32\<close>

lemma rhe_cases:
  "\<lfloor>y\<rfloor> = f \<Longrightarrow> y - of_int f < 1 / 2 \<Longrightarrow> round_half_even y = f"
  "\<lfloor>y\<rfloor> = f \<Longrightarrow> 1 / 2 < y - of_int f \<Longrightarrow> round_half_even y = f + 1"
  "\<lfloor>y\<rfloor> = f \<Longrightarrow> y - of_int f = 1 / 2 \<Longrightarrow> even f \<Longrightarrow> round_half_even y = f"
  "\<lfloor>y\<rfloor> = f \<Longrightarrow> y - of_int f = 1 / 2 \<Longrightarrow> odd f \<Longrightarrow> round_half_even y = f + 1"
  by (auto simp add: round_half_even_def Let_def)

lemma rhe_unique:
  assumes "\<bar>of_int n - y\<bar> < 1 / 2 \<or> (\<bar>of_int n - y\<bar> = 1 / 2 \<and> even n)"
  shows "round_half_even y = n"
proof -
  consider (below) "of_int n \<le> y" "y - of_int n < 1 / 2"
    | (above) "y < of_int n" "of_int n - y < 1 / 2"
    | (tie_up) "y = of_int n + 1 / 2" "even n"
    | (tie_down) "y = of_int n - 1 / 2" "even n"
    using assms by (cases "of_int n \<le> y") (auto simp: abs_if split: if_splits)
  then show ?thesis
  proof cases
    case below
    then have "\<lfloor>y\<rfloor> = n" by (intro floor_unique) auto
    then show ?thesis using below(2) by (rule rhe_cases(1))
  next
    case above
    then have f: "\<lfloor>y\<rfloor> = n - 1" by (intro floor_unique) auto
    have "1 / 2 < y - of_int (n - 1)" using above by simp
    with f have "round_half_even y = n - 1 + 1" by (rule rhe_cases(2))
    then show ?thesis by simp
  next
    case tie_up
    then have f: "\<lfloor>y\<rfloor> = n" by (intro floor_unique) auto
    have "y - of_int n = 1 / 2" using tie_up by simp
    with f show ?thesis using tie_up(2) by (rule rhe_cases(3))
  next
    case tie_down
    then have f: "\<lfloor>y\<rfloor> = n - 1" by (intro floor_unique) auto
    have d: "y - of_int (n - 1) = 1 / 2" using tie_down by simp
    have "odd (n - 1)" using tie_down(2) by simp
    with f d have "round_half_even y = n - 1 + 1" by (rule rhe_cases(4))
    then show ?thesis by simp
  qed
qed

lemma rhe_spec:
  "\<bar>of_int (round_half_even y) - y\<bar> < 1 / 2 \<or>
   (\<bar>of_int (round_half_even y) - y\<bar> = 1 / 2 \<and> even (round_half_even y))"
proof -
  let ?f = "\<lfloor>y\<rfloor>"
  let ?d = "y - of_int ?f"
  have d: "0 \<le> ?d" "?d < 1" by linarith+
  consider "?d < 1 / 2" | "1 / 2 < ?d" | "?d = 1 / 2" "even ?f" | "?d = 1 / 2" "odd ?f"
    by fastforce
  then show ?thesis
  proof cases
    case 1
    then have "round_half_even y = ?f" by (simp add: round_half_even_def)
    then show ?thesis using 1 d by simp
  next
    case 2
    then have "round_half_even y = ?f + 1" by (simp add: round_half_even_def Let_def)
    then show ?thesis using 2 d by simp
  next
    case 3
    then have "round_half_even y = ?f" by (simp add: round_half_even_def Let_def)
    then show ?thesis using 3 by simp
  next
    case 4
    then have "round_half_even y = ?f + 1" by (simp add: round_half_even_def Let_def)
    then show ?thesis using 4 by simp
  qed
qed

lemma rhe_error: "\<bar>of_int (round_half_even y) - y\<bar> \<le> 1 / 2"
  using rhe_spec [of y] by linarith

lemma rhe_int [simp]: "round_half_even (of_int n) = n"
  by (rule rhe_unique) simp

lemma rhe_uminus: "round_half_even (- y) = - round_half_even y"
proof (rule rhe_unique)
  have "\<bar>of_int (- round_half_even y) - (- y)\<bar> = \<bar>of_int (round_half_even y) - y\<bar>"
    by (simp add: abs_minus_commute)
  then show "\<bar>of_int (- round_half_even y) - - y\<bar> < 1 / 2 \<or>
      \<bar>of_int (- round_half_even y) - - y\<bar> = 1 / 2 \<and> even (- round_half_even y)"
    using rhe_spec [of y] by simp
qed

lemma rhe_mono:
  assumes "y \<le> z"
  shows "round_half_even y \<le> round_half_even z"
proof -
  have fy: "\<lfloor>y\<rfloor> \<le> \<lfloor>z\<rfloor>" using assms by (rule floor_mono)
  have up: "round_half_even y \<le> \<lfloor>y\<rfloor> + 1" and lo: "\<lfloor>z\<rfloor> \<le> round_half_even z"
    by (simp_all add: round_half_even_def Let_def)
  show ?thesis
  proof (cases "\<lfloor>y\<rfloor> = \<lfloor>z\<rfloor>")
    case True
    then show ?thesis using assms by (auto simp add: round_half_even_def Let_def)
  next
    case False
    then have "\<lfloor>y\<rfloor> + 1 \<le> \<lfloor>z\<rfloor>" using fy by simp
    then show ?thesis using up lo by linarith
  qed
qed

lemma rhe_ge: "of_int n \<le> y \<Longrightarrow> n \<le> round_half_even y"
  using rhe_mono [of "of_int n" y] by simp

lemma rhe_le: "y \<le> of_int n \<Longrightarrow> round_half_even y \<le> n"
  using rhe_mono [of y "of_int n"] by simp


lemma binade_search_spec:
  "binade_search n e x \<le> e \<and> e - int n \<le> binade_search n e x \<and>
   (2 powi (binade_search n e x) \<le> x \<or> binade_search n e x = e - int n) \<and>
   (\<forall>e'. binade_search n e x < e' \<and> e' \<le> e \<longrightarrow> \<not> 2 powi e' \<le> x)"
proof (induction n arbitrary: e)
  case 0
  then show ?case by simp
next
  case (Suc n)
  show ?case
  proof (cases "2 powi e \<le> x")
    case True
    then show ?thesis by simp
  next
    case False
    have r: "binade_search (Suc n) e x = binade_search n (e - 1) x"
      using False by simp
    have top: "\<not> 2 powi e' \<le> x" if "binade_search n (e - 1) x < e'" "e' \<le> e" for e'
    proof (cases "e' = e")
      case True
      then show ?thesis using False by simp
    next
      case ne: False
      then have "e' \<le> e - 1" using that(2) by simp
      then show ?thesis using Suc.IH [of "e - 1"] that(1) by blast
    qed
    show ?thesis
      unfolding r using Suc.IH [of "e - 1"] top by (auto simp add: algebra_simps)
  qed
qed

lemma binade_range: "- 126 \<le> binade x" "binade x \<le> 127"
  using binade_search_spec [of 253 127 "\<bar>x\<bar>"] by (simp_all add: binade_def)

lemma binade_lower: "2 powi (binade x) \<le> \<bar>x\<bar> \<or> binade x = - 126"
  using binade_search_spec [of 253 127 "\<bar>x\<bar>"] by (simp add: binade_def)

lemma binade_maximal: "binade x < e \<Longrightarrow> e \<le> 127 \<Longrightarrow> \<bar>x\<bar> < 2 powi e"
  using binade_search_spec [of 253 127 "\<bar>x\<bar>"] by (auto simp add: binade_def not_le)

lemma binade_upper: "binade x < 127 \<Longrightarrow> \<bar>x\<bar> < 2 powi (binade x + 1)"
  by (rule binade_maximal) simp_all

lemma binade_less:
  assumes "\<bar>x\<bar> < 2 powi k" and "- 125 \<le> k"
  shows "binade x < k"
proof (rule ccontr)
  assume "\<not> binade x < k"
  then have k: "k \<le> binade x" by simp
  then have "binade x \<noteq> - 126" using assms(2) by simp
  then have "2 powi (binade x) \<le> \<bar>x\<bar>" using binade_lower [of x] by simp
  moreover have "(2::rat) powi k \<le> 2 powi (binade x)"
    using k by (intro power_int_increasing) simp_all
  ultimately show False using assms(1) by linarith
qed

lemma binade_eq:
  assumes "2 powi e \<le> \<bar>x\<bar>" and "\<bar>x\<bar> < 2 powi (e + 1)" and "- 126 \<le> e" and "e \<le> 127"
  shows "binade x = e"
proof -
  have "binade x < e + 1"
    using assms(2,3) by (intro binade_less) simp_all
  moreover have "\<not> binade x < e"
    using binade_maximal [of x e] assms(1,4) by auto
  ultimately show ?thesis by simp
qed

lemma binade_mono:
  assumes "\<bar>x\<bar> \<le> \<bar>y\<bar>"
  shows "binade x \<le> binade y"
proof (rule ccontr)
  assume "\<not> binade x \<le> binade y"
  then have lt: "binade y < binade x" by simp
  then have "binade x \<noteq> - 126" using binade_range(1) [of y] by simp
  then have "2 powi (binade x) \<le> \<bar>x\<bar>" using binade_lower [of x] by simp
  moreover have "\<bar>y\<bar> < 2 powi (binade x)"
    using lt binade_range(2) [of x] by (rule binade_maximal)
  ultimately show False using assms by linarith
qed

lemma binade_uminus [simp]: "binade (- x) = binade x"
  by (simp add: binade_def)

lemma fl32_uminus: "fl32 (- x) = - fl32 x"
  by (simp add: fl32_def Let_def rhe_uminus)

lemma rhe_zero [simp]: "round_half_even 0 = 0"
  using rhe_int [of 0] by simp

lemma fl32_zero [simp]: "fl32 0 = 0"
  by (simp add: fl32_def)

lemma fl32_nonneg: "0 \<le> x \<Longrightarrow> 0 \<le> fl32 x"
proof -
  assume x: "0 \<le> x"
  let ?q = "(2::rat) powi (binade x - 23)"
  have q: "0 < ?q" by simp
  have "of_int 0 \<le> x / ?q" using x q by simp
  then have "0 \<le> round_half_even (x / ?q)" by (rule rhe_ge)
  then show ?thesis using q by (simp add: fl32_def Let_def)
qed

lemma fl32_error: "\<bar>fl32 x - x\<bar> \<le> 2 powi (binade x - 24)"
proof -
  let ?q = "(2::rat) powi (binade x - 23)"
  have q: "0 < ?q" by simp
  have "fl32 x - x = (of_int (round_half_even (x / ?q)) - x / ?q) * ?q"
    using q by (simp add: fl32_def Let_def algebra_simps)
  then have "\<bar>fl32 x - x\<bar> = \<bar>of_int (round_half_even (x / ?q)) - x / ?q\<bar> * ?q"
    using q by (simp add: abs_mult)
  also have "\<dots> \<le> (1 / 2) * ?q"
    using rhe_error [of "x / ?q"] q by (intro mult_right_mono) simp_all
  also have "\<dots> = 2 powi (binade x - 24)"
  proof -
    have "(2::rat) powi (binade x - 23) = 2 powi (binade x - 24 + 1)" by simp
    also have "\<dots> = 2 powi (binade x - 24) * 2"
      by (subst power_int_add) simp_all
    finally show ?thesis by simp
  qed
  finally show ?thesis .
qed

lemma fl32_error_below:
  assumes "\<bar>x\<bar> < 2 powi k" and "- 125 \<le> k"
  shows "\<bar>fl32 x - x\<bar> \<le> 2 powi (k - 25)"
proof -
  have "binade x < k" using assms by (rule binade_less)
  then have "(2::rat) powi (binade x - 24) \<le> 2 powi (k - 25)"
    by (intro power_int_increasing) simp_all
  then show ?thesis using fl32_error [of x] by linarith
qed


lemma fl32_same_binade:
  assumes "x \<le> y" and "binade x = binade y"
  shows "fl32 x \<le> fl32 y"
proof -
  let ?q = "(2::rat) powi (binade y - 23)"
  have q: "0 < ?q" by simp
  have "x / ?q \<le> y / ?q" using assms(1) q by (simp add: divide_right_mono)
  then have "round_half_even (x / ?q) \<le> round_half_even (y / ?q)" by (rule rhe_mono)
  then have "(of_int (round_half_even (x / ?q)) :: rat) \<le> of_int (round_half_even (y / ?q))"
    by simp
  then show ?thesis
    using q by (simp add: fl32_def Let_def assms(2))
qed

text \<open>A value of the binade e rounds into the closed binade.\<close>

lemma fl32_binade_bounds:
  assumes x: "0 \<le> x"
  shows "2 powi (binade x) \<le> x \<Longrightarrow> 2 powi (binade x) \<le> fl32 x"
    and "x < 2 powi (binade x + 1) \<Longrightarrow> fl32 x \<le> 2 powi (binade x + 1)"
proof -
  let ?e = "binade x"
  let ?q = "(2::rat) powi (?e - 23)"
  have q: "0 < ?q" by simp
  have lo: "(2::rat) powi ?e = of_int (2 ^ 23) * ?q"
  proof -
    have "?e = 23 + (?e - 23)" by simp
    then have "(2::rat) powi ?e = 2 powi (23 + (?e - 23))" by (simp only:)
    also have "\<dots> = 2 powi 23 * ?q" by (subst power_int_add) simp_all
    finally show ?thesis by simp
  qed
  have hi: "(2::rat) powi (?e + 1) = of_int (2 ^ 24) * ?q"
  proof -
    have "?e + 1 = 24 + (?e - 23)" by simp
    then have "(2::rat) powi (?e + 1) = 2 powi (24 + (?e - 23))" by (simp only:)
    also have "\<dots> = 2 powi 24 * ?q" by (subst power_int_add) simp_all
    finally show ?thesis by simp
  qed
  {
    assume "2 powi ?e \<le> x"
    then have "of_int (2 ^ 23) \<le> x / ?q"
      using q by (simp add: lo pos_le_divide_eq)
    then have "2 ^ 23 \<le> round_half_even (x / ?q)" by (rule rhe_ge)
    then have "(of_int (2 ^ 23) :: rat) \<le> of_int (round_half_even (x / ?q))"
      by (simp only: of_int_le_iff)
    then have "of_int (2 ^ 23) * ?q \<le> of_int (round_half_even (x / ?q)) * ?q"
      using q by (intro mult_right_mono) simp_all
    then show "2 powi ?e \<le> fl32 x"
      by (simp only: lo fl32_def Let_def)
  }
  {
    assume "x < 2 powi (?e + 1)"
    then have "x / ?q \<le> of_int (2 ^ 24)"
      using q by (simp add: hi pos_divide_le_eq)
    then have "round_half_even (x / ?q) \<le> 2 ^ 24" by (rule rhe_le)
    then have "(of_int (round_half_even (x / ?q)) :: rat) \<le> of_int (2 ^ 24)"
      by (simp only: of_int_le_iff)
    then have "of_int (round_half_even (x / ?q)) * ?q \<le> of_int (2 ^ 24) * ?q"
      using q by (intro mult_right_mono) simp_all
    then show "fl32 x \<le> 2 powi (?e + 1)"
      by (simp only: hi fl32_def Let_def)
  }
qed

lemma fl32_mono_nonneg:
  assumes "0 \<le> x" and "x \<le> y"
  shows "fl32 x \<le> fl32 y"
proof -
  have y: "0 \<le> y" using assms by simp
  have le: "binade x \<le> binade y"
    using assms by (intro binade_mono) simp
  show ?thesis
  proof (cases "binade x = binade y")
    case True
    with assms(2) show ?thesis by (rule fl32_same_binade)
  next
    case False
    then have lt: "binade x < binade y" using le by simp
    have "binade x < 127" using lt binade_range(2) [of y] by simp
    then have "x < 2 powi (binade x + 1)"
      using binade_upper [of x] assms(1) by simp
    then have a: "fl32 x \<le> 2 powi (binade x + 1)"
      by (rule fl32_binade_bounds(2) [OF assms(1)])
    have "binade y \<noteq> - 126" using lt binade_range(1) [of x] by simp
    then have "2 powi (binade y) \<le> y"
      using binade_lower [of y] y by simp
    then have b: "2 powi (binade y) \<le> fl32 y"
      by (rule fl32_binade_bounds(1) [OF y])
    have "(2::rat) powi (binade x + 1) \<le> 2 powi (binade y)"
      using lt by (intro power_int_increasing) simp_all
    then show ?thesis using a b by linarith
  qed
qed

lemma fl32_mono:
  assumes "x \<le> y"
  shows "fl32 x \<le> fl32 y"
proof -
  consider "0 \<le> x" | "y \<le> 0" | "x < 0" "0 < y" by linarith
  then show ?thesis
  proof cases
    case 1
    then show ?thesis using assms by (rule fl32_mono_nonneg)
  next
    case 2
    then have "fl32 (- y) \<le> fl32 (- x)"
      using assms by (intro fl32_mono_nonneg) simp_all
    then show ?thesis by (simp add: fl32_uminus)
  next
    case 3
    have "0 \<le> fl32 (- x)" using 3 by (intro fl32_nonneg) simp
    then have "fl32 x \<le> 0" by (simp add: fl32_uminus)
    moreover have "0 \<le> fl32 y" using 3 by (intro fl32_nonneg) simp
    ultimately show ?thesis by simp
  qed
qed


lemma fl32_near:
  assumes "2 powi e \<le> \<bar>x\<bar>" and "\<bar>x\<bar> < 2 powi (e + 1)" and "- 126 \<le> e" and "e \<le> 127"
    and near: "\<bar>x - of_int n * 2 powi (e - 23)\<bar> < 2 powi (e - 24)"
  shows "fl32 x = of_int n * 2 powi (e - 23)"
proof -
  let ?q = "(2::rat) powi (e - 23)"
  have q: "0 < ?q" by simp
  have b: "binade x = e" using assms(1-4) by (rule binade_eq)
  have half: "(2::rat) powi (e - 24) = (1 / 2) * ?q"
  proof -
    have "e - 23 = e - 24 + 1" by simp
    then have "?q = 2 powi (e - 24 + 1)" by (simp only:)
    also have "\<dots> = 2 powi (e - 24) * 2" by (subst power_int_add) simp_all
    finally show ?thesis by simp
  qed
  have "of_int n - x / ?q = (of_int n * ?q - x) / ?q"
    using q by (simp add: field_simps)
  then have "\<bar>of_int n - x / ?q\<bar> = \<bar>x - of_int n * ?q\<bar> / ?q"
    using q by (simp add: abs_minus_commute)
  also have "\<dots> < ((1 / 2) * ?q) / ?q"
    using near q unfolding half by (intro divide_strict_right_mono) simp_all
  also have "\<dots> = 1 / 2" using q by simp
  finally have "round_half_even (x / ?q) = n"
    by (intro rhe_unique) simp
  then show ?thesis by (simp add: fl32_def Let_def b)
qed

lemma binade_one: "binade 1 = 0"
  by (rule binade_eq) simp_all

lemma fl32_Ints:
  assumes "x \<in> \<int>" and "\<bar>x\<bar> < 2 ^ 24"
  shows "fl32 x = x"
proof (cases "x = 0")
  case True
  then show ?thesis by simp
next
  case False
  obtain n where n: "x = of_int n" using assms(1) by (elim Ints_cases)
  have "n \<noteq> 0" using False n by simp
  then have "1 \<le> \<bar>x\<bar>" by (simp add: n flip: of_int_abs)
  then have lo: "0 \<le> binade x"
    using binade_mono [of 1 x] by (simp add: binade_one)
  have "\<bar>x\<bar> < 2 powi 24" using assms(2) by simp
  then have hi: "binade x < 24" by (rule binade_less) simp
  define k where "k = nat (23 - binade x)"
  have e: "binade x - 23 = - int k" using hi by (simp add: k_def)
  have q: "(2::rat) powi (binade x - 23) = inverse (2 ^ k)"
    unfolding e by (simp add: power_int_minus)
  have "x / inverse (2 ^ k) = of_int (n * 2 ^ k)"
    by (simp add: n divide_inverse)
  then have "round_half_even (x / inverse (2 ^ k)) = n * 2 ^ k"
    by (simp only: rhe_int)
  then have "fl32 x = of_int (n * 2 ^ k) * inverse (2 ^ k)"
    by (simp only: fl32_def Let_def q)
  also have "\<dots> = x" by (simp add: n)
  finally show ?thesis .
qed

subsection \<open>The conversion of the boxes\<close>

lemma astype_int_mono: "a \<le> b \<Longrightarrow> astype_int a \<le> astype_int b"
proof -
  assume ab: "a \<le> b"
  show ?thesis
  proof (cases "0 \<le> a")
    case True
    then have "0 \<le> b" using ab by simp
    then show ?thesis using True ab by (simp add: astype_int_def floor_mono)
  next
    case False
    then have "\<lceil>a\<rceil> \<le> 0" by simp
    show ?thesis
    proof (cases "0 \<le> b")
      case True
      then have "0 \<le> \<lfloor>b\<rfloor>" by simp
      with \<open>\<lceil>a\<rceil> \<le> 0\<close> have "\<lceil>a\<rceil> \<le> \<lfloor>b\<rfloor>" by (rule order_trans)
      then show ?thesis using False True by (simp add: astype_int_def)
    next
      case nb: False
      then show ?thesis using False ab by (simp add: astype_int_def ceiling_mono)
    qed
  qed
qed

lemma astype_int_step: "astype_int (u + 1) \<le> astype_int u + 1"
proof -
  have "\<lfloor>u\<rfloor> \<le> \<lceil>u\<rceil>" by simp
  then show ?thesis by (auto simp add: astype_int_def)
qed

lemma astype_int_close:
  assumes "\<bar>u - v\<bar> < 1"
  shows "\<bar>astype_int u - astype_int v\<bar> \<le> 1"
proof -
  have "astype_int v \<le> astype_int (u + 1)"
    using assms by (intro astype_int_mono) linarith
  then have a: "astype_int v \<le> astype_int u + 1"
    using astype_int_step [of u] by linarith
  have "astype_int u \<le> astype_int (v + 1)"
    using assms by (intro astype_int_mono) linarith
  then have b: "astype_int u \<le> astype_int v + 1"
    using astype_int_step [of v] by linarith
  show ?thesis using a b by linarith
qed

lemma corner_error:
  assumes a: "\<bar>a\<bar> \<le> 2 ^ 22" and b: "\<bar>b\<bar> \<le> 2 ^ 22"
  shows "\<bar>fl32 (fl32 a - fl32 ((1 / 2) * fl32 b)) - (a - b / 2)\<bar> < 1"
    and "\<bar>fl32 (fl32 a + fl32 ((1 / 2) * fl32 b)) - (a + b / 2)\<bar> < 1"
proof -
  let ?A = "fl32 a" and ?B = "fl32 b"
  let ?h = "fl32 ((1 / 2) * ?B)"
  have q2: "(2::rat) powi (23 - 25) = 1 / 4" and q3: "(2::rat) powi (22 - 25) = 1 / 8"
    by (simp_all add: power_int_minus)
  have a': "- 4194304 \<le> a" "a \<le> 4194304" and b': "- 4194304 \<le> b" "b \<le> 4194304"
    using a b by (simp_all add: abs_le_iff)
  have "\<bar>a\<bar> < 2 powi 23" using a by simp
  then have "\<bar>?A - a\<bar> \<le> 2 powi (23 - 25)" by (rule fl32_error_below) simp
  then have eA: "?A - a \<le> 1 / 4" "a - ?A \<le> 1 / 4"
    unfolding q2 by linarith+
  have "\<bar>b\<bar> < 2 powi 23" using b by simp
  then have "\<bar>?B - b\<bar> \<le> 2 powi (23 - 25)" by (rule fl32_error_below) simp
  then have eB: "?B - b \<le> 1 / 4" "b - ?B \<le> 1 / 4"
    unfolding q2 by linarith+
  have "- 4194304 < (1 / 2) * ?B" "(1 / 2) * ?B < 4194304"
    using eB b' by linarith+
  then have "\<bar>(1 / 2) * ?B\<bar> < 2 powi 22" by (simp add: abs_less_iff)
  then have "\<bar>?h - (1 / 2) * ?B\<bar> \<le> 2 powi (22 - 25)" by (rule fl32_error_below) simp
  then have eH: "?h - (1 / 2) * ?B \<le> 1 / 8" "(1 / 2) * ?B - ?h \<le> 1 / 8"
    unfolding q3 by linarith+
  have "- 8388608 < ?A - ?h" "?A - ?h < 8388608"
    using eA eB eH a' b' by linarith+
  then have "\<bar>?A - ?h\<bar> < 2 powi 23" by (simp add: abs_less_iff)
  then have "\<bar>fl32 (?A - ?h) - (?A - ?h)\<bar> \<le> 2 powi (23 - 25)" by (rule fl32_error_below) simp
  then have eM: "fl32 (?A - ?h) - (?A - ?h) \<le> 1 / 4" "(?A - ?h) - fl32 (?A - ?h) \<le> 1 / 4"
    unfolding q2 by linarith+
  have "- 8388608 < ?A + ?h" "?A + ?h < 8388608"
    using eA eB eH a' b' by linarith+
  then have "\<bar>?A + ?h\<bar> < 2 powi 23" by (simp add: abs_less_iff)
  then have "\<bar>fl32 (?A + ?h) - (?A + ?h)\<bar> \<le> 2 powi (23 - 25)" by (rule fl32_error_below) simp
  then have eP: "fl32 (?A + ?h) - (?A + ?h) \<le> 1 / 4" "(?A + ?h) - fl32 (?A + ?h) \<le> 1 / 4"
    unfolding q2 by linarith+
  have "fl32 (?A - ?h) - (a - b / 2) < 1" "(a - b / 2) - fl32 (?A - ?h) < 1"
    using eA eB eH eM by linarith+
  then show "\<bar>fl32 (?A - ?h) - (a - b / 2)\<bar> < 1" by (simp add: abs_less_iff)
  have "fl32 (?A + ?h) - (a + b / 2) < 1" "(a + b / 2) - fl32 (?A + ?h) < 1"
    using eA eB eH eP by linarith+
  then show "\<bar>fl32 (?A + ?h) - (a + b / 2)\<bar> < 1" by (simp add: abs_less_iff)
qed

lemma fl32_of_nat:
  assumes "n \<le> 2 ^ 22"
  shows "fl32 (of_nat n) = of_nat n"
proof -
  have "(of_nat n :: rat) \<le> of_nat (2 ^ 22)"
    using assms by (simp only: of_nat_le_iff)
  then have "\<bar>of_nat n :: rat\<bar> < 2 ^ 24"
    by simp
  then show ?thesis
    by (intro fl32_Ints) simp_all
qed

lemma scaled_bound:
  assumes "0 \<le> c" and "c \<le> 1" and "n \<le> 2 ^ 22"
  shows "\<bar>c * of_nat n :: rat\<bar> \<le> 2 ^ 22"
proof -
  have n: "(of_nat n :: rat) \<le> of_nat (2 ^ 22)"
    using assms(3) by (simp only: of_nat_le_iff)
  have "c * of_nat n \<le> 1 * of_nat n"
    using assms(2) by (intro mult_right_mono) simp_all
  then have "c * of_nat n \<le> 2 ^ 22"
    using n by simp
  moreover have "0 \<le> c * of_nat n"
    using assms(1) by simp
  ultimately show ?thesis by simp
qed

text \<open>One corner pair of the code against the formula of the specification: the
  float32 result is less than one away from the exact value, so the truncated
  corners differ by at most one.\<close>

lemma corner_pair_close:
  assumes c: "0 \<le> c" "c \<le> 1" and d: "0 \<le> d" "d \<le> 1" and n: "n \<le> 2 ^ 22"
  shows "\<bar>astype_int (fl32 (fl32 (c * fl32 (of_nat n)) - fl32 ((1 / 2) * fl32 (d * fl32 (of_nat n)))))
           - astype_int ((c - d / 2) * of_nat n)\<bar> \<le> 1"
    and "\<bar>astype_int (fl32 (fl32 (c * fl32 (of_nat n)) + fl32 ((1 / 2) * fl32 (d * fl32 (of_nat n)))))
           - astype_int ((c + d / 2) * of_nat n)\<bar> \<le> 1"
proof -
  let ?a = "c * of_nat n :: rat" and ?b = "d * of_nat n :: rat"
  have a: "\<bar>?a\<bar> \<le> 2 ^ 22" and b: "\<bar>?b\<bar> \<le> 2 ^ 22"
    using c d n by (simp_all only: scaled_bound)
  have m: "(c - d / 2) * of_nat n = ?a - ?b / 2" and p: "(c + d / 2) * of_nat n = ?a + ?b / 2"
    by (simp_all add: algebra_simps)
  show "\<bar>astype_int (fl32 (fl32 (c * fl32 (of_nat n)) - fl32 ((1 / 2) * fl32 (d * fl32 (of_nat n)))))
           - astype_int ((c - d / 2) * of_nat n)\<bar> \<le> 1"
    unfolding fl32_of_nat [OF n] m by (rule astype_int_close) (rule corner_error [OF a b])
  show "\<bar>astype_int (fl32 (fl32 (c * fl32 (of_nat n)) + fl32 ((1 / 2) * fl32 (d * fl32 (of_nat n)))))
           - astype_int ((c + d / 2) * of_nat n)\<bar> \<le> 1"
    unfolding fl32_of_nat [OF n] p by (rule astype_int_close) (rule corner_error [OF a b])
qed

lemma code_box_close_to_spec_box:
  assumes "unit_box b" and "W \<le> 2 ^ 22" and "H \<le> 2 ^ 22"
  shows "within_one_pixel (astype_int_box (box_convert (mul_whwh W H b))) (spec_pixel_box W H b)"
proof -
  obtain cx cy bw bh where b: "b = (cx, cy, bw, bh)" by (cases b)
  have u: "0 \<le> cx" "cx \<le> 1" "0 \<le> cy" "cy \<le> 1" "0 \<le> bw" "bw \<le> 1" "0 \<le> bh" "bh \<le> 1"
    using assms(1) by (simp_all add: b unit_box_def)
  show ?thesis
    unfolding b within_one_pixel_def astype_int_box_def box_convert_def mul_whwh_def
      spec_pixel_box_def prod.case
    by (intro conjI corner_pair_close u assms(2,3))
qed

lemma corner_pair_ordered:
  assumes "0 \<le> d"
  shows "astype_int (fl32 (fl32 (c * fl32 (of_nat n)) - fl32 ((1 / 2) * fl32 (d * fl32 (of_nat n)))))
           \<le> astype_int (fl32 (fl32 (c * fl32 (of_nat n)) + fl32 ((1 / 2) * fl32 (d * fl32 (of_nat n)))))"
proof -
  have "0 \<le> fl32 (of_nat n)"
    by (rule fl32_nonneg) simp
  then have "0 \<le> d * fl32 (of_nat n)"
    using assms by simp
  then have "0 \<le> fl32 (d * fl32 (of_nat n))"
    by (rule fl32_nonneg)
  then have "0 \<le> (1 / 2) * fl32 (d * fl32 (of_nat n))"
    by simp
  then have "0 \<le> fl32 ((1 / 2) * fl32 (d * fl32 (of_nat n)))"
    by (rule fl32_nonneg)
  then have "fl32 (c * fl32 (of_nat n)) - fl32 ((1 / 2) * fl32 (d * fl32 (of_nat n)))
      \<le> fl32 (c * fl32 (of_nat n)) + fl32 ((1 / 2) * fl32 (d * fl32 (of_nat n)))"
    by simp
  then show ?thesis
    by (intro astype_int_mono fl32_mono)
qed

lemma code_box_ordered:
  assumes "size_nonneg b"
  shows "corners_ordered (astype_int_box (box_convert (mul_whwh W H b)))"
proof -
  obtain cx cy bw bh where b: "b = (cx, cy, bw, bh)" by (cases b)
  have w: "0 \<le> bw" and h: "0 \<le> bh" using assms by (simp_all add: b size_nonneg_def)
  show ?thesis
    unfolding b corners_ordered_def astype_int_box_def box_convert_def mul_whwh_def prod.case
    by (intro conjI corner_pair_ordered w h)
qed

lemma fl32_third_of_480: "fl32 (167772165 / 1048576) = 160"
  by code_simp

text \<open>
  C1, as amended. The Box Normalizer returns one Pixel Box per Detection, in the order
  of the input, and an empty output for an empty input. The box number \<open>i\<close> of the
  output is computed from the Detection number \<open>i\<close> in float32: the products with
  \<open>[W, H, W, H]\<close>, then the half sizes, then the differences and sums, each rounded to
  float32, and the truncation toward zero at the end. For a normalized box in
  \<open>[0,1]\<^sup>4\<close> and dimensions up to \<open>2\<^sup>2\<^sup>2\<close> (positive or not), each corner is at most one
  pixel away from
  the formula of the specification,
  \<open>(trunc ((cx - w/2) * W), trunc ((cy - h/2) * H), trunc ((cx + w/2) * W),
  trunc ((cy + h/2) * H))\<close>; and whenever \<open>w \<ge> 0\<close> and \<open>h \<ge> 0\<close> the corners satisfy
  \<open>x1 \<le> x2\<close> and \<open>y1 \<le> y2\<close>.
\<close>

theorem box_normalizer_float32:
  assumes "list_all unit_box boxes" and "W \<le> 2 ^ 22" and "H \<le> 2 ^ 22"
  shows "length (xyxy_of W H boxes) = length boxes \<and>
         (\<forall>i < length boxes.
            xyxy_of W H boxes ! i = astype_int_box (box_convert (mul_whwh W H (boxes ! i))) \<and>
            within_one_pixel (xyxy_of W H boxes ! i) (spec_pixel_box W H (boxes ! i)) \<and>
            (size_nonneg (boxes ! i) \<longrightarrow> corners_ordered (xyxy_of W H boxes ! i))) \<and>
         xyxy_of W H [] = []"
proof -
  have "within_one_pixel (xyxy_of W H boxes ! i) (spec_pixel_box W H (boxes ! i))"
    if "i < length boxes" for i
  proof -
    have "unit_box (boxes ! i)"
      using assms(1) that by (simp add: list_all_length)
    then have "within_one_pixel (astype_int_box (box_convert (mul_whwh W H (boxes ! i))))
        (spec_pixel_box W H (boxes ! i))"
      using assms(2,3) by (rule code_box_close_to_spec_box)
    then show ?thesis
      using that by (simp add: xyxy_of_def)
  qed
  then show ?thesis
    by (simp add: xyxy_of_def code_box_ordered)
qed

text \<open>The claim as written fails: the float32 value nearest to one third is
  \<open>11184811 / 33554432\<close>, a little above one third. On a 640 by 480 image the
  detection \<open>(1/4, 1/2, 1/8, 11184811/33554432)\<close> has the height
  \<open>480 * 11184811 / 33554432\<close>, a little above 160, which float32 rounds to 160: the
  code returns \<open>y1 = 240 - 80 = 160\<close>, where the formula of the specification gives
  \<open>trunc (159.99999...) = 159\<close>.\<close>

theorem box_normalizer_counterexample:
  "unit_box (1 / 4, 1 / 2, 1 / 8, 11184811 / 33554432) \<and>
   xyxy_of 640 480 [(1 / 4, 1 / 2, 1 / 8, 11184811 / 33554432)] = [(120, 160, 200, 320)] \<and>
   spec_pixel_box 640 480 (1 / 4, 1 / 2, 1 / 8, 11184811 / 33554432) = (120, 159, 200, 320)"
proof -
  have u: "unit_box (1 / 4, 1 / 2, 1 / 8, 11184811 / 33554432)"
    by (simp add: unit_box_def)
  have code: "xyxy_of 640 480 [(1 / 4, 1 / 2, 1 / 8, 11184811 / 33554432)] = [(120, 160, 200, 320)]"
    by (simp add: xyxy_of_def astype_int_box_def box_convert_def mul_whwh_def astype_int_def
        fl32_Ints fl32_third_of_480)
  have spec: "spec_pixel_box 640 480 (1 / 4, 1 / 2, 1 / 8, 11184811 / 33554432) = (120, 159, 200, 320)"
    by (simp add: spec_pixel_box_def astype_int_def floor_eq_iff ceiling_eq_iff)
  show ?thesis
    by (intro conjI u code spec)
qed

theorem box_normalizer_float32_witness:
  "list_all unit_box [(1 / 4, 1 / 2, 1 / 8, 11184811 / 33554432), (1 / 2, 1 / 4, 1 / 4, 1 / 8)] \<and>
   xyxy_of 640 480 [(1 / 4, 1 / 2, 1 / 8, 11184811 / 33554432), (1 / 2, 1 / 4, 1 / 4, 1 / 8)]
     = [(120, 160, 200, 320), (240, 90, 400, 150)] \<and>
   within_one_pixel (120, 160, 200, 320)
     (spec_pixel_box 640 480 (1 / 4, 1 / 2, 1 / 8, 11184811 / 33554432)) \<and>
   within_one_pixel (240, 90, 400, 150) (spec_pixel_box 640 480 (1 / 2, 1 / 4, 1 / 4, 1 / 8)) \<and>
   corners_ordered (120, 160, 200, 320) \<and> corners_ordered (240, 90, 400, 150)"
proof -
  let ?bs = "[(1 / 4, 1 / 2, 1 / 8, 11184811 / 33554432), (1 / 2, 1 / 4, 1 / 4, 1 / 8)] :: cxcywh list"
  have u: "list_all unit_box ?bs"
    by (simp add: unit_box_def)
  have s0: "size_nonneg (?bs ! 0)" and s1: "size_nonneg (?bs ! 1)"
    by (simp_all add: size_nonneg_def)
  have v: "xyxy_of 640 480 ?bs = [(120, 160, 200, 320), (240, 90, 400, 150)]"
    by (simp add: xyxy_of_def astype_int_box_def box_convert_def mul_whwh_def astype_int_def
        fl32_Ints fl32_third_of_480)
  have all: "\<forall>i < length ?bs.
      xyxy_of 640 480 ?bs ! i = astype_int_box (box_convert (mul_whwh 640 480 (?bs ! i))) \<and>
      within_one_pixel (xyxy_of 640 480 ?bs ! i) (spec_pixel_box 640 480 (?bs ! i)) \<and>
      (size_nonneg (?bs ! i) \<longrightarrow> corners_ordered (xyxy_of 640 480 ?bs ! i))"
    by (rule box_normalizer_float32 [of ?bs 640 480, OF u, THEN conjunct2, THEN conjunct1])
      simp_all
  have l0: "0 < length ?bs" and l1: "1 < length ?bs"
    by simp_all
  have w0: "within_one_pixel (xyxy_of 640 480 ?bs ! 0) (spec_pixel_box 640 480 (?bs ! 0))"
    and c0: "corners_ordered (xyxy_of 640 480 ?bs ! 0)"
    using all l0 s0 by blast+
  have w1: "within_one_pixel (xyxy_of 640 480 ?bs ! 1) (spec_pixel_box 640 480 (?bs ! 1))"
    and c1: "corners_ordered (xyxy_of 640 480 ?bs ! 1)"
    using all l1 s1 by blast+
  have n0: "?bs ! 0 = (1 / 4, 1 / 2, 1 / 8, 11184811 / 33554432)"
    and n1: "?bs ! 1 = (1 / 2, 1 / 4, 1 / 4, 1 / 8)"
    by simp_all
  have x0: "xyxy_of 640 480 ?bs ! 0 = (120, 160, 200, 320)"
    and x1: "xyxy_of 640 480 ?bs ! 1 = (240, 90, 400, 150)"
    by (simp_all only: v nth_Cons_0 One_nat_def nth_Cons_Suc)
  show ?thesis
    using u v w0 w1 c0 c1 unfolding n0 n1 x0 x1
    by (intro conjI)
qed

subsection \<open>The region filter\<close>

lemma wrap64_id: "- (2 ^ 63) \<le> n \<Longrightarrow> n < 2 ^ 63 \<Longrightarrow> wrap64 n = n"
  by (simp add: wrap64_def)

lemma small_product:
  fixes a b :: int
  assumes "\<bar>a\<bar> < 2 ^ 31" and "\<bar>b\<bar> < 2 ^ 31"
  shows "\<bar>a * b\<bar> < 2 ^ 62"
proof -
  have "\<bar>a\<bar> * \<bar>b\<bar> < 2 ^ 31 * 2 ^ 31"
    using assms by (intro mult_strict_mono') simp_all
  then show ?thesis by (simp add: abs_mult)
qed

text \<open>For bounded corners the int64 arithmetic of the filter is exact.\<close>

lemma box_area_exact:
  assumes "coords_bounded (x1, y1, x2, y2)"
  shows "box_area (x1, y1, x2, y2) = (x2 - x1) * (y2 - y1)"
proof -
  have dx: "\<bar>x2 - x1\<bar> < 2 ^ 31"
    using assms by (simp add: coords_bounded_def) linarith
  have dy: "\<bar>y2 - y1\<bar> < 2 ^ 31"
    using assms by (simp add: coords_bounded_def) linarith
  have wx: "wrap64 (x2 - x1) = x2 - x1"
    using dx by (intro wrap64_id) simp_all
  have wy: "wrap64 (y2 - y1) = y2 - y1"
    using dy by (intro wrap64_id) simp_all
  have "\<bar>(x2 - x1) * (y2 - y1)\<bar> < 2 ^ 62"
    using dx dy by (rule small_product)
  then have "wrap64 ((x2 - x1) * (y2 - y1)) = (x2 - x1) * (y2 - y1)"
    by (intro wrap64_id) simp_all
  then show ?thesis
    by (simp add: box_area_def wx wy)
qed

text \<open>The test of the code for a sequence \<^verbatim>\<open>image.size\<close>: a box fails it if and only
  if its area is at least a quarter of the product of the sequence, which is the width
  times the height for the sequence \<open>[W, H]\<close>.\<close>

lemma region_filter_area_rule:
  assumes "coords_bounded (x1, y1, x2, y2)"
  shows "(\<not> region_filter image_size (x1, y1, x2, y2) \<longleftrightarrow>
            (1 / 4) * of_int (math_prod image_size) \<le> (of_int ((x2 - x1) * (y2 - y1)) :: rat)) \<and>
         math_prod [W, H] = W * H"
  using box_area_exact [OF assms]
  by (simp add: region_filter_def math_prod_def not_less)

lemma guard_of_size:
  "guard (PIL_Image W H) bbox = Inr (region_filter [int W, int H] bbox)"
  by (simp add: guard_def math_prod_py_def size_attr_def region_filter_def)

lemma notebook_loop_body_of_size:
  "notebook_loop_body A image_path image_source (PIL_Image W H) ib fs
     = loop_body A image_path image_source [int W, int H] ib fs"
  by (cases ib) (simp add: notebook_loop_body_def loop_body_def guard_of_size)

lemma notebook_detection_loop_of_size:
  "notebook_detection_loop A image_path image_source (PIL_Image W H) ibs fs
     = detection_loop A image_path image_source [int W, int H] ibs fs"
  by (induction ibs arbitrary: fs) (simp_all add: notebook_loop_body_of_size split: sum.splits)

lemma notebook_cell20_of_size:
  "notebook_cell20 A image_path image_source (PIL_Image W H) xyxy fs
     = cell20 A image_path image_source [int W, int H] xyxy fs"
  by (simp add: notebook_cell20_def cell20_def notebook_detection_loop_of_size)

text \<open>Every run of the loop that returns is a run of the loop for some sequence
  \<^verbatim>\<open>image.size\<close>: the pair of the image, or any sequence when there is no box.\<close>

lemma notebook_cell20_returns:
  assumes "notebook_cell20 A image_path image_source image_object xyxy fs = Inr fs1"
  shows "\<exists>image_size. cell20 A image_path image_source image_size xyxy fs = Inr fs1"
proof (cases image_object)
  case Torch_Tensor
  then have "xyxy = []"
    using assms
    by (cases xyxy)
       (simp_all add: notebook_cell20_def notebook_loop_body_def guard_def math_prod_py_def
          size_attr_def)
  then show ?thesis
    using assms by (simp add: cell20_def notebook_cell20_def)
next
  case (PIL_Image W H)
  then show ?thesis
    using assms by (auto simp add: notebook_cell20_of_size)
qed

text \<open>
  C2. The Region Filter rejects a Pixel Box if and only if its area is at least 0.25
  times the width times the height of the source image, and has no effect on the
  state. For an object \<^verbatim>\<open>image\<close> whose size is the pair of the width and the height,
  the guard of the code is that test. In the notebook \<^verbatim>\<open>image\<close> is the tensor of
  \<^verbatim>\<open>load_image\<close>, whose \<^verbatim>\<open>size\<close> is a method: the guard raises \<^verbatim>\<open>TypeError\<close> for every
  box, whatever its area, the loop body raises with it before any segmentation, and
  so does the loop for every list of boxes that is not empty. On a 20 by 20 image the
  box \<open>(2, 2, 7, 7)\<close> of area 25 is one that the rule retains, and the box
  \<open>(0, 0, 20, 20)\<close> of area 400 one that it rejects; the notebook raises for both.
\<close>

theorem region_filter_guard_raises:
  "guard Torch_Tensor bbox = Inl TypeError \<and>
   notebook_loop_body A image_path image_source Torch_Tensor (idx, bbox) fs = Inl TypeError \<and>
   notebook_cell20 A image_path image_source Torch_Tensor (bbox # rest) fs = Inl TypeError \<and>
   guard (PIL_Image W H) bbox = Inr (region_filter [int W, int H] bbox) \<and>
   guard (PIL_Image 20 20) (2, 2, 7, 7) = Inr True \<and>
   guard Torch_Tensor (2, 2, 7, 7) = Inl TypeError \<and>
   guard (PIL_Image 20 20) (0, 0, 20, 20) = Inr False \<and>
   guard Torch_Tensor (0, 0, 20, 20) = Inl TypeError"
proof -
  have g: "guard Torch_Tensor b = Inl TypeError" for b
    by (simp add: guard_def math_prod_py_def size_attr_def)
  have body: "notebook_loop_body A image_path image_source Torch_Tensor (idx, bbox) fs = Inl TypeError"
    by (simp add: notebook_loop_body_def g)
  have loop: "notebook_cell20 A image_path image_source Torch_Tensor (bbox # rest) fs = Inl TypeError"
    by (simp add: notebook_cell20_def notebook_loop_body_def g)
  have small: "guard (PIL_Image 20 20) (2, 2, 7, 7) = Inr True"
    by (simp add: guard_def math_prod_py_def size_attr_def math_prod_def box_area_def wrap64_def)
  have large: "guard (PIL_Image 20 20) (0, 0, 20, 20) = Inr False"
    by (simp add: guard_def math_prod_py_def size_attr_def math_prod_def box_area_def wrap64_def)
  show ?thesis
    by (intro conjI g body loop guard_of_size small large)
qed


text \<open>
  C3, as amended. A Pixel Box is retained exactly when its area is strictly below 25%
  of the product of \<^verbatim>\<open>image.size\<close>: the strict inequality is the condition to retain.
  A box whose area is exactly 25% of it is rejected, and so is a box at 26%.
\<close>

theorem region_filter_boundary:
  assumes "coords_bounded (x1, y1, x2, y2)"
  shows "(region_filter image_size (x1, y1, x2, y2) \<longleftrightarrow>
            (of_int ((x2 - x1) * (y2 - y1)) :: rat) < (1 / 4) * of_int (math_prod image_size)) \<and>
         ((of_int ((x2 - x1) * (y2 - y1)) :: rat) = (25 / 100) * of_int (math_prod image_size) \<longrightarrow>
            \<not> region_filter image_size (x1, y1, x2, y2)) \<and>
         (0 < math_prod image_size \<and>
          (of_int ((x2 - x1) * (y2 - y1)) :: rat) = (26 / 100) * of_int (math_prod image_size) \<longrightarrow>
            \<not> region_filter image_size (x1, y1, x2, y2))"
  using box_area_exact [OF assms]
  by (simp add: region_filter_def)

text \<open>The claim as written fails: on a 20 by 20 image the box \<open>(0, 0, 10, 10)\<close> has
  exactly 25% of the area and does not pass the filter.\<close>

theorem region_filter_boundary_counterexample:
  "(of_int (box_area (0, 0, 10, 10)) :: rat) = (25 / 100) * of_int (math_prod [20, 20]) \<and>
   \<not> region_filter [20, 20] (0, 0, 10, 10)"
  by (simp add: region_filter_def box_area_def wrap64_def math_prod_def)

theorem region_filter_boundary_witness:
  "coords_bounded (0, 0, 500, 500) \<and>
   (of_int ((500 - 0) * (500 - 0)) :: rat) = (25 / 100) * of_int (math_prod [1000, 1000]) \<and>
   \<not> region_filter [1000, 1000] (0, 0, 500, 500) \<and>
   coords_bounded (0, 0, 520, 500) \<and>
   0 < math_prod [1000, 1000] \<and>
   (of_int ((520 - 0) * (500 - 0)) :: rat) = (26 / 100) * of_int (math_prod [1000, 1000]) \<and>
   \<not> region_filter [1000, 1000] (0, 0, 520, 500)"
proof -
  have b25: "coords_bounded (0, 0, 500, 500)" and b26: "coords_bounded (0, 0, 520, 500)"
    by (simp_all add: coords_bounded_def)
  have p: "0 < math_prod [1000, 1000]"
    by (simp add: math_prod_def)
  have a25: "(of_int ((500 - 0) * (500 - 0)) :: rat) = (25 / 100) * of_int (math_prod [1000, 1000])"
    by (simp add: math_prod_def)
  have a26: "(of_int ((520 - 0) * (500 - 0)) :: rat) = (26 / 100) * of_int (math_prod [1000, 1000])"
    by (simp add: math_prod_def)
  have r25: "\<not> region_filter [1000, 1000] (0, 0, 500, 500)"
    using region_filter_boundary [OF b25, of "[1000, 1000]"] a25 by blast
  have r26: "\<not> region_filter [1000, 1000] (0, 0, 520, 500)"
    using region_filter_boundary [OF b26, of "[1000, 1000]"] a26 p by blast
  show ?thesis
    using b25 b26 p a25 a26 r25 r26 by blast
qed

subsection \<open>The masked crop\<close>



lemma py_slice_same [simp]: "py_slice i i xs = []"
  by (simp add: py_slice_def)



lemma has_shape_length: "has_shape H W a \<Longrightarrow> length a = H"
  by (metis has_shape_def length_map length_replicate)

lemma has_shape_row: "has_shape H W a \<Longrightarrow> r < H \<Longrightarrow> length (a ! r) = W"
  by (metis has_shape_def has_shape_length nth_map nth_replicate)

lemma np_where_same_shape:
  assumes "has_shape H W m" and "has_shape H W img"
  shows "np_where (times255 m) img =
           Inr (map2 (\<lambda>cr ar. map2 (\<lambda>c px. if c \<noteq> 0 then px else map (\<lambda>_. 0) px) cr ar)
                  (times255 m) img)"
  using assms by (simp add: np_where_def times255_def comp_def has_shape_def)







text \<open>
  C5. A Pixel Box that extends beyond the image is cropped to the valid indices, and
  no error is raised. The index of the code never raises and clips at the right and
  bottom edges (the pixel rule above); it misses the clip at the top and left edges,
  where a negative corner counts from the far edge. The detection \<open>(7/8, 1/16, 1/2, 1/4)\<close> on
  a 16 by 16 image has the box \<open>(10, -1, 18, 3)\<close>, which passes the filter; the index
  \<^verbatim>\<open>[-1:3, 10:18]\<close> takes the rows from 15 to 3, so the crop has no rows, where the
  clipped box \<open>(10, 0, 16, 3)\<close> has three rows of six pixels (as has the box
  \<open>(10, 0, 18, 3)\<close>, which the code clips on the right).
\<close>

theorem crop_clamping_negative_top_corner:
  "xyxy_of 16 16 [(7 / 8, 1 / 16, 1 / 2, 1 / 4)] = [(10, - 1, 18, 3)] \<and>
   region_filter [16, 16] (10, - 1, 18, 3) \<and>
   masked_object (replicate 16 (replicate 16 1)) (replicate 16 (replicate 16 [10, 20, 30])) (10, - 1, 18, 3)
     = Inr [] \<and>
   masked_object (replicate 16 (replicate 16 1)) (replicate 16 (replicate 16 [10, 20, 30])) (10, 0, 18, 3)
     = Inr (replicate 3 (replicate 6 [10, 20, 30])) \<and>
   masked_object (replicate 16 (replicate 16 1)) (replicate 16 (replicate 16 [10, 20, 30])) (10, 0, 16, 3)
     = Inr (replicate 3 (replicate 6 [10, 20, 30]))"
proof -
  have box: "xyxy_of 16 16 [(7 / 8, 1 / 16, 1 / 2, 1 / 4)] = [(10, - 1, 18, 3)]"
    by (simp add: xyxy_of_def astype_int_box_def box_convert_def mul_whwh_def astype_int_def
        fl32_Ints floor_eq_iff ceiling_eq_iff)
  have pass: "region_filter [16, 16] (10, - 1, 18, 3)"
    by code_simp
  have top: "masked_object (replicate 16 (replicate 16 1))
        (replicate 16 (replicate 16 [10, 20, 30])) (10, - 1, 18, 3) = Inr []"
    by code_simp
  have right: "masked_object (replicate 16 (replicate 16 1))
        (replicate 16 (replicate 16 [10, 20, 30])) (10, 0, 18, 3)
      = Inr (replicate 3 (replicate 6 [10, 20, 30]))"
    by code_simp
  have clipped: "masked_object (replicate 16 (replicate 16 1))
        (replicate 16 (replicate 16 [10, 20, 30])) (10, 0, 16, 3)
      = Inr (replicate 3 (replicate 6 [10, 20, 30]))"
    by code_simp
  show ?thesis
    by (intro conjI box pass top right clipped)
qed

text \<open>The same at the left edge: the detection \<open>(1/8, 1/2, 1/2, 1/4)\<close> on an 8 by 8
  image has the box \<open>(-1, 3, 3, 5)\<close>; its crop has two rows of no pixels, where the
  clipped box \<open>(0, 3, 3, 5)\<close> has two rows of three.\<close>

lemma crop_negative_left_corner:
  "xyxy_of 8 8 [(1 / 8, 1 / 2, 1 / 2, 1 / 4)] = [(- 1, 3, 3, 5)] \<and>
   region_filter [8, 8] (- 1, 3, 3, 5) \<and>
   masked_object (replicate 8 (replicate 8 1)) (replicate 8 (replicate 8 [10, 20, 30])) (- 1, 3, 3, 5)
     = Inr [[], []] \<and>
   masked_object (replicate 8 (replicate 8 1)) (replicate 8 (replicate 8 [10, 20, 30])) (0, 3, 3, 5)
     = Inr [[[10, 20, 30], [10, 20, 30], [10, 20, 30]], [[10, 20, 30], [10, 20, 30], [10, 20, 30]]]"
proof -
  have box: "xyxy_of 8 8 [(1 / 8, 1 / 2, 1 / 2, 1 / 4)] = [(- 1, 3, 3, 5)]"
    by (simp add: xyxy_of_def astype_int_box_def box_convert_def mul_whwh_def astype_int_def
        fl32_Ints floor_eq_iff ceiling_eq_iff)
  have pass: "region_filter [8, 8] (- 1, 3, 3, 5)"
    by code_simp
  have left: "masked_object (replicate 8 (replicate 8 1))
        (replicate 8 (replicate 8 [10, 20, 30])) (- 1, 3, 3, 5) = Inr [[], []]"
    by code_simp
  have clipped: "masked_object (replicate 8 (replicate 8 1))
        (replicate 8 (replicate 8 [10, 20, 30])) (0, 3, 3, 5)
      = Inr [[[10, 20, 30], [10, 20, 30], [10, 20, 30]], [[10, 20, 30], [10, 20, 30], [10, 20, 30]]]"
    by code_simp
  show ?thesis
    by (intro conjI box pass left clipped)
qed

subsection \<open>Empty crops\<close>

lemma crop_empty_zero_width: "crop_empty (crop (x, y1, x, y2) a)"
  by (simp add: crop_empty_def crop_def list_all_iff)

lemma crop_empty_zero_height: "crop_empty (crop (x1, y, x2, y) a)"
  by (simp add: crop_empty_def crop_def)

lemma zero_area_retained:
  assumes "coords_bounded (x1, y1, x2, y2)" and "x1 = x2 \<or> y1 = y2"
    and "0 < math_prod image_size"
  shows "region_filter image_size (x1, y1, x2, y2)"
  using box_area_exact [OF assms(1)] assms(2,3)
  by (auto simp add: region_filter_def)

text \<open>
  C6, as amended. The loop has no guard for an empty crop. A retained Detection whose
  crop is empty goes the way of every retained Detection: the empty array is handed
  to \<^verbatim>\<open>Image.fromarray(...).save\<close> under the path of the Detection; if the save
  returns, the file is written with the bytes it produced, and if it raises, the run
  fails with its error. Such Detections exist: a box of zero width or zero height
  (with bounded corners, on an image of positive size) passes the filter, and its crop
  is empty.
\<close>

theorem zero_area_crop_not_skipped:
  "(region_filter image_size (x1, y1, x2, y2) \<and> sam2_predict A (x1, y1, x2, y2) = Inr (m # ms) \<and>
    masked_object m image_source (x1, y1, x2, y2) = Inr obj \<and> crop_empty obj \<longrightarrow>
      loop_body A image_path image_source image_size (idx, (x1, y1, x2, y2)) fs =
        (case png_save A obj of
           Inl e \<Rightarrow> Inl e
         | Inr data \<Rightarrow> write_file (crop_path image_path idx) data fs)) \<and>
   (coords_bounded (x1, y1, x2, y2) \<and> (x1 = x2 \<or> y1 = y2) \<and> 0 < math_prod image_size \<and>
    has_shape H W m \<and> has_shape H W image_source \<longrightarrow>
      region_filter image_size (x1, y1, x2, y2) \<and>
      (\<exists>obj. masked_object m image_source (x1, y1, x2, y2) = Inr obj \<and> crop_empty obj))"
proof -
  have one: "loop_body A image_path image_source image_size (idx, (x1, y1, x2, y2)) fs =
        (case png_save A obj of
           Inl e \<Rightarrow> Inl e
         | Inr data \<Rightarrow> write_file (crop_path image_path idx) data fs)"
    if "region_filter image_size (x1, y1, x2, y2)" "sam2_predict A (x1, y1, x2, y2) = Inr (m # ms)"
      "masked_object m image_source (x1, y1, x2, y2) = Inr obj"
    using that by (simp add: loop_body_def crop_compositor_def)
  have two: "region_filter image_size (x1, y1, x2, y2) \<and>
      (\<exists>obj. masked_object m image_source (x1, y1, x2, y2) = Inr obj \<and> crop_empty obj)"
    if b: "coords_bounded (x1, y1, x2, y2)" and z: "x1 = x2 \<or> y1 = y2"
      and p: "0 < math_prod image_size"
      and m: "has_shape H W m" and a: "has_shape H W image_source"
  proof -
    have "masked_object m image_source (x1, y1, x2, y2) =
            Inr (crop (x1, y1, x2, y2)
              (map2 (\<lambda>cr ar. map2 (\<lambda>c px. if c \<noteq> 0 then px else map (\<lambda>_. 0) px) cr ar)
                  (times255 m) image_source))"
      by (simp add: masked_object_def np_where_same_shape [OF m a])
    moreover have "crop_empty (crop (x1, y1, x2, y2) a')" for a' :: image
      using z crop_empty_zero_width crop_empty_zero_height by auto
    ultimately show ?thesis
      using zero_area_retained [OF b z p] by blast
  qed
  show ?thesis
    using one two by blast
qed

text \<open>The claim as written fails: the detection \<open>(1/4, 1/2, 0, 1/2)\<close> on a 4 by 4
  image has the box \<open>(1, 1, 1, 3)\<close> of zero width. It passes the filter and its crop has
  two rows of no pixels. With an encoder that returns four bytes for it, the file
  \<^verbatim>\<open>tempdir/IMG_6509_0.png\<close> is written with them; with an encoder that raises for an
  empty image, the run fails. In neither case is the Detection skipped.\<close>

theorem zero_area_crop_counterexample:
  "xyxy_of 4 4 [(1 / 4, 1 / 2, 0, 1 / 2)] = [(1, 1, 1, 3)] \<and>
   region_filter [4, 4] (1, 1, 1, 3) \<and>
   masked_object (replicate 4 (replicate 4 1)) (replicate 4 (replicate 4 [10, 20, 30])) (1, 1, 1, 3)
     = Inr [[], []] \<and>
   crop_empty [[], []] \<and>
   loop_body
     \<lparr>sam2_predict = (\<lambda>b. Inr [replicate 4 (replicate 4 1)]),
      png_save = (\<lambda>a. Inr [137, 80, 78, 71]),
      ollama_chat = (\<lambda>p d. Inr ''yes'')\<rparr>
     IMAGE_PATH (replicate 4 (replicate 4 [10, 20, 30])) [4, 4] (0, (1, 1, 1, 3))
     \<lparr>dirs = [''tempdir''], files = []\<rparr>
     = Inr \<lparr>dirs = [''tempdir''], files = [(''tempdir/IMG_6509_0.png'', [137, 80, 78, 71])]\<rparr> \<and>
   loop_body
     \<lparr>sam2_predict = (\<lambda>b. Inr [replicate 4 (replicate 4 1)]),
      png_save = (\<lambda>a. if crop_empty a then Inl (AdapterError ''empty image'') else Inr [137, 80, 78, 71]),
      ollama_chat = (\<lambda>p d. Inr ''yes'')\<rparr>
     IMAGE_PATH (replicate 4 (replicate 4 [10, 20, 30])) [4, 4] (0, (1, 1, 1, 3))
     \<lparr>dirs = [''tempdir''], files = []\<rparr>
     = Inl (AdapterError ''empty image'')"
proof -
  have box: "xyxy_of 4 4 [(1 / 4, 1 / 2, 0, 1 / 2)] = [(1, 1, 1, 3)]"
    by (simp add: xyxy_of_def astype_int_box_def box_convert_def mul_whwh_def astype_int_def
        fl32_Ints floor_eq_iff ceiling_eq_iff)
  have pass: "region_filter [4, 4] (1, 1, 1, 3)"
    by code_simp
  have crop: "masked_object (replicate 4 (replicate 4 1))
        (replicate 4 (replicate 4 [10, 20, 30])) (1, 1, 1, 3) = Inr [[], []]"
    by code_simp
  have empty: "crop_empty [[], []]"
    by code_simp
  have written: "loop_body
     \<lparr>sam2_predict = (\<lambda>b. Inr [replicate 4 (replicate 4 1)]),
      png_save = (\<lambda>a. Inr [137, 80, 78, 71]),
      ollama_chat = (\<lambda>p d. Inr ''yes'')\<rparr>
     IMAGE_PATH (replicate 4 (replicate 4 [10, 20, 30])) [4, 4] (0, (1, 1, 1, 3))
     \<lparr>dirs = [''tempdir''], files = []\<rparr>
     = Inr \<lparr>dirs = [''tempdir''], files = [(''tempdir/IMG_6509_0.png'', [137, 80, 78, 71])]\<rparr>"
    by code_simp
  have raised: "loop_body
     \<lparr>sam2_predict = (\<lambda>b. Inr [replicate 4 (replicate 4 1)]),
      png_save = (\<lambda>a. if crop_empty a then Inl (AdapterError ''empty image'') else Inr [137, 80, 78, 71]),
      ollama_chat = (\<lambda>p d. Inr ''yes'')\<rparr>
     IMAGE_PATH (replicate 4 (replicate 4 [10, 20, 30])) [4, 4] (0, (1, 1, 1, 3))
     \<lparr>dirs = [''tempdir''], files = []\<rparr>
     = Inl (AdapterError ''empty image'')"
    by code_simp
  show ?thesis
    by (intro conjI box pass crop empty written raised)
qed

theorem zero_area_crop_not_skipped_witness:
  "coords_bounded (1, 1, 1, 3) \<and> 0 < math_prod [4, 4] \<and>
   has_shape 4 4 (replicate 4 (replicate 4 (1 :: int))) \<and>
   has_shape 4 4 (replicate 4 (replicate 4 [10, 20, 30 :: byte])) \<and>
   region_filter [4, 4] (1, 1, 1, 3) \<and>
   masked_object (replicate 4 (replicate 4 1)) (replicate 4 (replicate 4 [10, 20, 30])) (1, 1, 1, 3)
     = Inr [[], []] \<and>
   crop_empty [[], []] \<and>
   loop_body
     \<lparr>sam2_predict = (\<lambda>b. Inr [replicate 4 (replicate 4 1)]),
      png_save = (\<lambda>a. Inr [137, 80, 78, 71]),
      ollama_chat = (\<lambda>p d. Inr ''yes'')\<rparr>
     IMAGE_PATH (replicate 4 (replicate 4 [10, 20, 30])) [4, 4] (0, (1, 1, 1, 3))
     \<lparr>dirs = [''tempdir''], files = []\<rparr>
     = write_file (crop_path IMAGE_PATH 0) [137, 80, 78, 71] \<lparr>dirs = [''tempdir''], files = []\<rparr>"
proof -
  let ?A = "\<lparr>sam2_predict = (\<lambda>b. Inr [replicate 4 (replicate 4 1)]),
      png_save = (\<lambda>a. Inr [137, 80, 78, 71]),
      ollama_chat = (\<lambda>p d. Inr ''yes'')\<rparr>"
  let ?m = "replicate 4 (replicate 4 (1 :: int))"
  let ?img = "replicate 4 (replicate 4 [10, 20, 30 :: byte])"
  let ?fs = "\<lparr>dirs = [''tempdir''], files = []\<rparr>"
  have b: "coords_bounded (1, 1, 1, 3)"
    by (simp add: coords_bounded_def)
  have p: "0 < math_prod [4, 4]"
    by (simp add: math_prod_def)
  have m: "has_shape 4 4 ?m" and a: "has_shape 4 4 ?img"
    by (simp_all add: has_shape_def)
  have ev: "masked_object ?m ?img (1, 1, 1, 3) = Inr [[], []]"
    by code_simp
  have e: "crop_empty [[], []]"
    by (simp add: crop_empty_def)
  have seg: "sam2_predict ?A (1, 1, 1, 3) = Inr [?m]"
    by simp
  note inst = zero_area_crop_not_skipped [of "[4, 4]" 1 1 1 3 ?A ?m "[]" ?img "[[], []]"
        IMAGE_PATH 0 ?fs 4 4]
  have r: "region_filter [4, 4] (1, 1, 1, 3)"
    using inst b p m a by blast
  have "loop_body ?A IMAGE_PATH ?img [4, 4] (0, (1, 1, 1, 3)) ?fs =
          (case png_save ?A [[], []] of
             Inl e \<Rightarrow> Inl e
           | Inr data \<Rightarrow> write_file (crop_path IMAGE_PATH 0) data ?fs)"
    using inst r seg ev e by blast
  then have "loop_body ?A IMAGE_PATH ?img [4, 4] (0, (1, 1, 1, 3)) ?fs =
          write_file (crop_path IMAGE_PATH 0) [137, 80, 78, 71] ?fs"
    by simp
  then show ?thesis
    using b p m a r ev e by blast
qed

subsection \<open>Paths\<close>


lemma rfind_absent: "c \<notin> set s \<Longrightarrow> rfind c s = - 1"
  by (simp add: rfind_def)









subsection \<open>The loop over the detections\<close>

lemma write_file_Inr:
  assumes "write_file p data fs = Inr fs'"
  shows "fs' = fs\<lparr>files := AList.update p data (files fs)\<rparr>"
  using assms by (simp add: write_file_def split: if_splits)


lemma loop_body_artifact:
  "loop_body A image_path image_source image_size (idx, bbox) fs =
     (if region_filter image_size bbox then
        (case artifact A image_source bbox of
           Inl e \<Rightarrow> Inl e
         | Inr data \<Rightarrow> write_file (crop_path image_path idx) data fs)
      else Inr fs)"
  by (simp add: loop_body_def artifact_def crop_compositor_def split: sum.splits list.splits)







subsection \<open>The directory and the classification\<close>

lemma makedirs_Inr:
  assumes "makedirs_exist_ok d fs = Inr fs'"
  shows "d \<in> set (dirs fs') \<and> files fs' = files fs \<and> set (dirs fs) \<subseteq> set (dirs fs') \<and>
         (d \<in> set (dirs fs) \<longrightarrow> fs' = fs)"
  using assms by (auto simp add: makedirs_exist_ok_def split: if_splits)

lemma makedirs_ok:
  assumes "d \<in> set (dirs fs) \<or> map_of (files fs) d = None"
  shows "\<exists>fs'. makedirs_exist_ok d fs = Inr fs'"
  using assms by (auto simp add: makedirs_exist_ok_def)


lemma classify_loop_paths:
  assumes "classify_loop A decode fs ps = Inr rs"
  shows "map fst rs = ps"
  using assms
  by (induction ps arbitrary: rs) (auto split: option.splits sum.splits)

lemma classify_loop_total:
  assumes "\<And>p d. \<exists>r. ollama_chat A p d = Inr r"
    and "list_all (decodable decode fs) ps"
  shows "\<exists>rs. classify_loop A decode fs ps = Inr rs"
  using assms(2)
proof (induction ps)
  case Nil
  then show ?case by simp
next
  case (Cons p ps)
  have dp: "decodable decode fs p" and rest: "list_all (decodable decode fs) ps"
    using Cons.prems by simp_all
  obtain d a where d: "map_of (files fs) p = Some d" and a: "decode d = Some a"
    using dp by (auto simp add: decodable_def cv2_imread_def split: option.splits)
  obtain r where r: "ollama_chat A p d = Inr r"
    using assms(1) by blast
  obtain rs where rs: "classify_loop A decode fs ps = Inr rs"
    using Cons.IH [OF rest] by blast
  show ?case
    by (simp add: d r a rs cv2_imread_def cv2_cvtColor_def)
qed

text \<open>A listed file that the decoder refuses ends the loop with the error of
  \<^verbatim>\<open>cv2.cvtColor\<close>, also when every chat call succeeds.\<close>

lemma classify_loop_undecodable:
  assumes "\<And>p d. \<exists>r. ollama_chat A p d = Inr r"
    and "set ps \<subseteq> fst ` set (files fs)"
    and "q \<in> set ps" and "\<not> decodable decode fs q"
  shows "classify_loop A decode fs ps = Inl Cv2Error"
  using assms(2,3)
proof (induction ps)
  case Nil
  then show ?case by simp
next
  case (Cons p ps)
  have "p \<in> fst ` set (files fs)"
    using Cons.prems(1) by simp
  then obtain d where d: "map_of (files fs) p = Some d"
    by (metis domD dom_map_of_conv_image_fst)
  obtain r where r: "ollama_chat A p d = Inr r"
    using assms(1) by blast
  show ?case
  proof (cases "cv2_imread decode fs p")
    case None
    then show ?thesis
      by (simp add: d r cv2_cvtColor_def)
  next
    case (Some a)
    then have "p \<noteq> q"
      using assms(4) by (auto simp add: decodable_def)
    then have "q \<in> set ps"
      using Cons.prems(2) by simp
    moreover have "set ps \<subseteq> fst ` set (files fs)"
      using Cons.prems(1) by simp
    ultimately have "classify_loop A decode fs ps = Inl Cv2Error"
      by (rule Cons.IH [rotated])
    then show ?thesis
      by (simp add: d r Some cv2_cvtColor_def)
  qed
qed

lemma glob_subset: "set (glob_tempdir_png fs) \<subseteq> fst ` set (files fs)"
  by (auto simp add: glob_tempdir_png_def)

lemma cell26_total:
  assumes "\<And>p d. \<exists>r. ollama_chat A p d = Inr r"
    and "list_all (decodable decode fs) (glob_tempdir_png fs)"
  shows "\<exists>rs. cell26 A decode fs = Inr rs"
  unfolding cell26_def by (rule classify_loop_total [OF assms])

lemma cell26_undecodable:
  assumes "\<And>p d. \<exists>r. ollama_chat A p d = Inr r"
    and "q \<in> set (glob_tempdir_png fs)" and "\<not> decodable decode fs q"
  shows "cell26 A decode fs = Inl Cv2Error"
  unfolding cell26_def by (rule classify_loop_undecodable [OF assms(1) glob_subset assms(2,3)])

lemma cell26_undecodable_example:
  "cell26 \<lparr>sam2_predict = (\<lambda>b. Inr []), png_save = (\<lambda>a. Inr []), ollama_chat = (\<lambda>p d. Inr ''No'')\<rparr>
     (\<lambda>d. if take 4 d = [137, 80, 78, 71] then Some [[[0, 0, 0]]] else None)
     \<lparr>dirs = [''tempdir''],
      files = [(''tempdir/a.png'', [137, 80, 78, 71, 9]), (''tempdir/b.png'', [])]\<rparr>
     = Inl Cv2Error"
  by (simp add: cell26_def glob_tempdir_png_def in_tempdir_png_def cv2_imread_def
      cv2_cvtColor_def)

lemma decodable_all:
  assumes "\<And>d. \<exists>a. decode d = Some a"
  shows "list_all (decodable decode fs) (glob_tempdir_png fs)"
proof -
  have "decodable decode fs q" if "q \<in> set (glob_tempdir_png fs)" for q
  proof -
    have "q \<in> fst ` set (files fs)"
      using that glob_subset by blast
    then obtain d where d: "map_of (files fs) q = Some d"
      by (metis domD dom_map_of_conv_image_fst)
    obtain a where "decode d = Some a"
      using assms by blast
    then show ?thesis
      by (simp add: decodable_def cv2_imread_def d)
  qed
  then show ?thesis
    by (simp add: list_all_iff)
qed

lemma cell26_paths:
  assumes "cell26 A decode fs = Inr rs"
  shows "map fst rs = glob_tempdir_png fs"
  using assms unfolding cell26_def by (rule classify_loop_paths)


lemma glob_distinct:
  assumes "distinct (map fst (files fs))"
  shows "distinct (glob_tempdir_png fs)"
  using assms by (simp add: glob_tempdir_png_def)

lemma glob_set: "set (glob_tempdir_png fs) = {q \<in> fst ` set (files fs). in_tempdir_png q}"
  by (auto simp add: glob_tempdir_png_def)

lemma once_in_distinct:
  assumes "distinct xs" and "x \<in> set xs"
  shows "length (filter (\<lambda>y. y = x) xs) = 1"
  using assms by (induction xs) (auto simp add: filter_empty_conv)

subsection \<open>The compositor, twice\<close>

text \<open>
  C9. Applying the compositor twice with the same source image, mask and Pixel Box
  gives the same bytes: when the first application has written its file, the second
  one succeeds and leaves the file system exactly as the first left it, the file of
  the crop holding the bytes of the first; and two applications in any two states
  and under any two paths leave the same bytes in their files. The encoder behind
  \<^verbatim>\<open>save\<close> is a function of the array it is given.
\<close>

theorem crop_compositor_idempotent:
  assumes one: "crop_compositor save m image_source b path fs = Inr fs1"
  shows "crop_compositor save m image_source b path fs1 = Inr fs1 \<and>
         (\<exists>obj data. masked_object m image_source b = Inr obj \<and> save obj = Inr data \<and>
            map_of (files fs1) path = Some data) \<and>
         (crop_compositor save m image_source b path' fs' = Inr fs2 \<longrightarrow>
            map_of (files fs2) path' = map_of (files fs1) path)"
proof -
  obtain obj data where obj: "masked_object m image_source b = Inr obj"
    and data: "save obj = Inr data"
    and w: "write_file path data fs = Inr fs1"
    using one by (auto simp add: crop_compositor_def split: sum.splits)
  have fs1: "fs1 = fs\<lparr>files := AList.update path data (files fs)\<rparr>"
    by (rule write_file_Inr [OF w])
  have d: "dirname path = [] \<or> dirname path \<in> set (dirs fs)"
    using w by (simp add: write_file_def split: if_splits)
  have "write_file path data fs1 = Inr fs1"
    using d by (simp add: write_file_def fs1)
  then have again: "crop_compositor save m image_source b path fs1 = Inr fs1"
    by (simp add: crop_compositor_def obj data)
  have bytes: "map_of (files fs1) path = Some data"
    by (simp add: fs1 update_conv')
  have other: "map_of (files fs2) path' = map_of (files fs1) path"
    if "crop_compositor save m image_source b path' fs' = Inr fs2"
  proof -
    have "write_file path' data fs' = Inr fs2"
      using that by (simp add: crop_compositor_def obj data)
    then have "fs2 = fs'\<lparr>files := AList.update path' data (files fs')\<rparr>"
      by (rule write_file_Inr)
    then show ?thesis
      by (simp add: bytes update_conv')
  qed
  show ?thesis
    using again obj data bytes other by blast
qed

theorem crop_compositor_idempotent_witness:
  "crop_compositor (\<lambda>a. Inr (concat (concat a))) [[1, 0, 1, 0], [0, 1, 0, 1], [1, 1, 0, 0]]
     [[[1, 1, 1], [2, 2, 2], [3, 3, 3], [4, 4, 4]],
      [[5, 5, 5], [6, 6, 6], [7, 7, 7], [8, 8, 8]],
      [[9, 9, 9], [10, 10, 10], [11, 11, 11], [12, 12, 12]]] (1, 0, 3, 2)
     ''tempdir/IMG_6509_0.png'' \<lparr>dirs = [''tempdir''], files = []\<rparr>
     = Inr \<lparr>dirs = [''tempdir''],
            files = [(''tempdir/IMG_6509_0.png'', [0, 0, 0, 3, 3, 3, 6, 6, 6, 0, 0, 0])]\<rparr> \<and>
   crop_compositor (\<lambda>a. Inr (concat (concat a))) [[1, 0, 1, 0], [0, 1, 0, 1], [1, 1, 0, 0]]
     [[[1, 1, 1], [2, 2, 2], [3, 3, 3], [4, 4, 4]],
      [[5, 5, 5], [6, 6, 6], [7, 7, 7], [8, 8, 8]],
      [[9, 9, 9], [10, 10, 10], [11, 11, 11], [12, 12, 12]]] (1, 0, 3, 2)
     ''tempdir/IMG_6509_0.png''
     \<lparr>dirs = [''tempdir''],
      files = [(''tempdir/IMG_6509_0.png'', [0, 0, 0, 3, 3, 3, 6, 6, 6, 0, 0, 0])]\<rparr>
     = Inr \<lparr>dirs = [''tempdir''],
            files = [(''tempdir/IMG_6509_0.png'', [0, 0, 0, 3, 3, 3, 6, 6, 6, 0, 0, 0])]\<rparr>"
proof -
  let ?m = "[[1, 0, 1, 0], [0, 1, 0, 1], [1, 1, 0, 0]] :: mask"
  let ?img = "[[[1, 1, 1], [2, 2, 2], [3, 3, 3], [4, 4, 4]],
      [[5, 5, 5], [6, 6, 6], [7, 7, 7], [8, 8, 8]],
      [[9, 9, 9], [10, 10, 10], [11, 11, 11], [12, 12, 12]]] :: image"
  let ?save = "(\<lambda>a. Inr (concat (concat a))) :: image \<Rightarrow> error + byte list"
  let ?fs1 = "\<lparr>dirs = [''tempdir''],
            files = [(''tempdir/IMG_6509_0.png'', [0, 0, 0, 3, 3, 3, 6, 6, 6, 0, 0, 0 :: byte])]\<rparr>"
  have one: "crop_compositor ?save ?m ?img (1, 0, 3, 2) ''tempdir/IMG_6509_0.png''
               \<lparr>dirs = [''tempdir''], files = []\<rparr> = Inr ?fs1"
    by code_simp
  show ?thesis
    using one crop_compositor_idempotent [OF one] by blast
qed

subsection \<open>One detection, end to end\<close>

text \<open>The float32 value nearest to one tenth is \<open>13421773 / 134217728\<close>, a little
  above one tenth; its float32 product with 1000 is 100.\<close>

lemma fl32_tenth_of_1000: "fl32 (1677721625 / 16777216) = 100"
  by code_simp

lemma scenario_box:
  "xyxy_of 1000 1000 [(1 / 2, 1 / 2, 13421773 / 134217728, 13421773 / 134217728)]
     = [(450, 450, 550, 550)]"
  by (simp add: xyxy_of_def astype_int_box_def box_convert_def mul_whwh_def astype_int_def
      fl32_Ints fl32_tenth_of_1000)

lemma scenario_retained: "region_filter [1000, 1000] (450, 450, 550, 550)"
  by (simp add: region_filter_def box_area_def wrap64_def math_prod_def)

lemma scenario_path: "crop_path IMAGE_PATH 0 = ''tempdir/IMG_6509_0.png''"
  by (simp add: crop_path_def IMAGE_PATH_def splitext_def rfind_def str_nat.simps digit_char_def)

lemma scenario_png: "in_tempdir_png ''tempdir/IMG_6509_0.png''"
  by (simp add: in_tempdir_png_def)

lemma has_shape_hw:
  assumes "has_shape H W a" and "0 < H"
  shows "shape_h a = H \<and> shape_w a = W"
proof -
  have l: "length a = H"
    by (rule has_shape_length [OF assms(1)])
  then obtain r rs where a: "a = r # rs"
    using assms(2) by (cases a) auto
  have "length (a ! 0) = W"
    by (rule has_shape_row [OF assms])
  then show ?thesis
    using l by (simp add: shape_h_def shape_w_def a)
qed

text \<open>The scenario with an object \<^verbatim>\<open>image\<close> that gives the size of the 1000 by 1000
  image as a pair: when the segmenter and the encoder succeed for the box (their
  result is the bytes \<open>data\<close>), the chat call succeeds and the decoder accepts what it
  is given, the cells return; the files are the files before the run with the one file
  \<^verbatim>\<open>tempdir/IMG_6509_0.png\<close> written, holding \<open>data\<close>; and the results hold exactly one
  Classification Result for that file, the only result when \<^verbatim>\<open>tempdir\<close> held no \<^verbatim>\<open>.png\<close>
  file before.\<close>

lemma scenario_with_size_pair:
  assumes img: "has_shape 1000 1000 image_source"
    and art: "artifact A image_source (450, 450, 550, 550) = Inr data"
    and chat: "\<And>p d. \<exists>r. ollama_chat A p d = Inr r"
    and dec: "\<And>d. \<exists>a. decode d = Some a"
    and dir: "''tempdir'' \<in> set (dirs fs) \<or> map_of (files fs) ''tempdir'' = None"
    and wf: "distinct (map fst (files fs))"
  shows "\<exists>fs' results.
            run_cells A decode IMAGE_PATH image_source (PIL_Image 1000 1000)
              [(1 / 2, 1 / 2, 13421773 / 134217728, 13421773 / 134217728)] fs
              = Inr (fs', results) \<and>
            files fs' = AList.update ''tempdir/IMG_6509_0.png'' data (files fs) \<and>
            length (filter (\<lambda>r. fst r = ''tempdir/IMG_6509_0.png'') results) = 1 \<and>
            (glob_tempdir_png fs = [] \<longrightarrow> length results = 1)"
proof -
  let ?b = "(450, 450, 550, 550) :: pixel_box"
  let ?p = "''tempdir/IMG_6509_0.png''"
  let ?boxes = "[(1 / 2, 1 / 2, 13421773 / 134217728, 13421773 / 134217728)] :: cxcywh list"
  have hw: "shape_h image_source = 1000 \<and> shape_w image_source = 1000"
    using has_shape_hw [OF img] by simp
  have box: "xyxy_of (shape_w image_source) (shape_h image_source) ?boxes = [?b]"
    using hw scenario_box by simp
  obtain fs1 where mk: "makedirs_exist_ok ''tempdir'' fs = Inr fs1"
    using makedirs_ok [OF dir] by blast
  have fs1: "''tempdir'' \<in> set (dirs fs1)" "files fs1 = files fs"
    using makedirs_Inr [OF mk] by simp_all
  have c19: "cell19 image_source ?boxes fs = Inr (fs1, [?b])"
    by (simp add: cell19_def mk box)
  have dn: "dirname ?p = ''tempdir''"
    by (simp add: dirname_def rfind_def)
  let ?fs2 = "fs1\<lparr>files := AList.update ?p data (files fs1)\<rparr>"
  have w: "write_file ?p data fs1 = Inr ?fs2"
    using fs1(1) by (simp add: write_file_def dn)
  have "cell20 A IMAGE_PATH image_source [1000, 1000] [?b] fs1 = Inr ?fs2"
    by (simp add: cell20_def loop_body_artifact scenario_retained art
        scenario_path w)
  then have c20: "notebook_cell20 A IMAGE_PATH image_source (PIL_Image 1000 1000) [?b] fs1 = Inr ?fs2"
    by (simp add: notebook_cell20_of_size)
  obtain results where c26: "cell26 A decode ?fs2 = Inr results"
    using cell26_total [OF chat decodable_all [where decode = decode, OF dec]] by blast
  have run: "run_cells A decode IMAGE_PATH image_source (PIL_Image 1000 1000) ?boxes fs
               = Inr (?fs2, results)"
    by (simp add: run_cells_def c19 c20 c26)
  have files2: "files ?fs2 = AList.update ?p data (files fs)"
    by (simp add: fs1)
  have paths: "map fst results = glob_tempdir_png ?fs2"
    by (rule cell26_paths [OF c26])
  have d2: "distinct (map fst (files ?fs2))"
    using wf by (simp add: fs1 distinct_update)
  have "?p \<in> fst ` set (files ?fs2)"
    by (simp add: dom_update)
  then have mem: "?p \<in> set (glob_tempdir_png ?fs2)"
    using scenario_png by (simp add: glob_set)
  have "length (filter (\<lambda>y. y = ?p) (map fst results)) = 1"
    unfolding paths by (rule once_in_distinct [OF glob_distinct [OF d2] mem])
  then have once: "length (filter (\<lambda>r. fst r = ?p) results) = 1"
    by (simp add: filter_map comp_def)
  have only: "length results = 1" if e: "glob_tempdir_png fs = []"
  proof -
    have "set (glob_tempdir_png ?fs2) = {?p}"
    proof -
      have "{q \<in> fst ` set (files fs). in_tempdir_png q} = {}"
        using e glob_set [of fs] by simp
      then show ?thesis
        using scenario_png by (auto simp add: glob_set files2 dom_update)
    qed
    then have "length (glob_tempdir_png ?fs2) = 1"
      using glob_distinct [OF d2]
      by (metis One_nat_def card.empty card.insert distinct_card empty_iff finite.emptyI)
    then show ?thesis
      using paths by (metis length_map)
  qed
  show ?thesis
    using run files2 once only by blast
qed

text \<open>
  C7. Given a 1000 by 1000 source image and the one Detection \<open>(0.5, 0.5, 0.1, 0.1)\<close>
  (in float32), the Pixel Box is \<open>(450, 450, 550, 550)\<close> of area 10000, which is below
  a quarter of \<open>1000 * 1000\<close>: the Region Filter of the specification retains it, and
  one artifact and one Classification Result are to follow. The notebook does not get
  there. Cell 19 creates \<^verbatim>\<open>tempdir\<close> and converts the box; the guard of cell 20 takes
  \<^verbatim>\<open>image.size\<close> of the tensor that \<^verbatim>\<open>load_image\<close> returned and raises \<^verbatim>\<open>TypeError\<close>.
  The run ends there, whatever the segmenter, the encoder, the chat call and the
  decoder are: no file is written and no result is recorded.
\<close>

theorem end_to_end_scenario_raises:
  "xyxy_of 1000 1000 [(1 / 2, 1 / 2, 13421773 / 134217728, 13421773 / 134217728)]
     = [(450, 450, 550, 550)] \<and>
   box_area (450, 450, 550, 550) = 10000 \<and>
   region_filter [1000, 1000] (450, 450, 550, 550) \<and>
   cell19 (replicate 1000 (replicate 1000 [0, 0, 0]))
     [(1 / 2, 1 / 2, 13421773 / 134217728, 13421773 / 134217728)] \<lparr>dirs = [], files = []\<rparr>
     = Inr (\<lparr>dirs = [''tempdir''], files = []\<rparr>, [(450, 450, 550, 550)]) \<and>
   notebook_cell20 A IMAGE_PATH (replicate 1000 (replicate 1000 [0, 0, 0])) Torch_Tensor
     [(450, 450, 550, 550)] \<lparr>dirs = [''tempdir''], files = []\<rparr> = Inl TypeError \<and>
   run_notebook A decode IMAGE_PATH (replicate 1000 (replicate 1000 [0, 0, 0]))
     [(1 / 2, 1 / 2, 13421773 / 134217728, 13421773 / 134217728)] \<lparr>dirs = [], files = []\<rparr>
     = Inl TypeError"
proof -
  let ?img = "replicate 1000 (replicate 1000 [0, 0, 0 :: byte])"
  let ?boxes = "[(1 / 2, 1 / 2, 13421773 / 134217728, 13421773 / 134217728)] :: cxcywh list"
  have img: "has_shape 1000 1000 ?img"
    by (simp add: has_shape_def)
  have hw: "shape_h ?img = 1000 \<and> shape_w ?img = 1000"
    using has_shape_hw [OF img] by simp
  have area: "box_area (450, 450, 550, 550) = 10000"
    by (simp add: box_area_def wrap64_def)
  have c19: "cell19 ?img ?boxes \<lparr>dirs = [], files = []\<rparr>
      = Inr (\<lparr>dirs = [''tempdir''], files = []\<rparr>, [(450, 450, 550, 550)])"
    by (simp add: cell19_def makedirs_exist_ok_def hw scenario_box)
  have c20: "notebook_cell20 A IMAGE_PATH ?img Torch_Tensor
      [(450, 450, 550, 550)] \<lparr>dirs = [''tempdir''], files = []\<rparr> = Inl TypeError"
    by (simp add: notebook_cell20_def notebook_loop_body_def guard_def math_prod_py_def
        size_attr_def)
  have run: "run_notebook A decode IMAGE_PATH ?img ?boxes \<lparr>dirs = [], files = []\<rparr> = Inl TypeError"
    by (simp add: run_notebook_def run_cells_def c19 c20)
  show ?thesis
    by (intro conjI scenario_box area scenario_retained c19 c20 run)
qed


subsection \<open>The names of the crops\<close>









subsection \<open>What the classification lists\<close>










end
